theory Spec2Isabelle
  imports Complex_Main "HOL-Library.Word"
begin

section \<open>Bytes, the sync marker and the struct reads\<close>

type_synonym byte = "8 word"
type_synonym bytes = "byte list"

text \<open>\<^verbatim>\<open>MAGIC_WORD = b'\x02\x01\x04\x03\x06\x05\x08\x07'\<close> and \<^verbatim>\<open>TLV_HEADER_SIZE = 8\<close>.\<close>

definition MAGIC_WORD :: bytes where
  "MAGIC_WORD = [2, 1, 4, 3, 6, 5, 8, 7]"

definition TLV_HEADER_SIZE :: nat where
  "TLV_HEADER_SIZE = 8"

datatype error = StructError | QueueFull | QueueEmpty | SerialReadError | ValueError

text \<open>\<^verbatim>\<open>bytearray.find(sub)\<close>: the lowest index where \<open>sub\<close> occurs, \<open>None\<close> for -1.\<close>

fun find_bytes :: "bytes \<Rightarrow> bytes \<Rightarrow> nat option" where
  "find_bytes sub [] = (if sub = [] then Some 0 else None)"
| "find_bytes sub (b # bs) =
     (if take (length sub) (b # bs) = sub then Some 0
      else map_option Suc (find_bytes sub bs))"

text \<open>The little-endian unsigned value of a byte string.\<close>

fun le_uint :: "bytes \<Rightarrow> nat" where
  "le_uint [] = 0"
| "le_uint (b # bs) = unat b + 256 * le_uint bs"

text \<open>\<^verbatim>\<open>struct.unpack_from('<I', data, off)[0]\<close>: struct.error when fewer than four
  bytes are left at \<open>off\<close>.\<close>

definition unpack_u32 :: "bytes \<Rightarrow> nat \<Rightarrow> error + nat" where
  "unpack_u32 data off =
     (if off + 4 \<le> length data then Inr (le_uint (take 4 (drop off data)))
      else Inl StructError)"

text \<open>\<^verbatim>\<open>'<h'\<close>: a little-endian signed 16-bit integer, read from exactly two bytes.\<close>

definition le_int16 :: "bytes \<Rightarrow> int" where
  "le_int16 bs = (let v = int (le_uint (take 2 bs)) in if v < 32768 then v else v - 65536)"

section \<open>The ingest queue (\<^verbatim>\<open>queue.Queue(maxsize=queue_max)\<close>)\<close>

text \<open>As in CPython, a \<open>maxsize\<close> that is not positive means an unbounded queue.\<close>

record 'a queue =
  maxsize :: int
  items :: "'a list"

definition qsize :: "'a queue \<Rightarrow> nat" where
  "qsize q = length (items q)"

definition full :: "'a queue \<Rightarrow> bool" where
  "full q = (0 < maxsize q \<and> maxsize q \<le> int (qsize q))"

definition put_nowait :: "'a queue \<Rightarrow> 'a \<Rightarrow> error + 'a queue" where
  "put_nowait q x = (if full q then Inl QueueFull else Inr (q\<lparr>items := items q @ [x]\<rparr>))"

definition get_nowait :: "'a queue \<Rightarrow> error + ('a \<times> 'a queue)" where
  "get_nowait q = (case items q of [] \<Rightarrow> Inl QueueEmpty | x # xs \<Rightarrow> Inr (x, q\<lparr>items := xs\<rparr>))"

text \<open>The push of one detection in \<^verbatim>\<open>NEW FILES/collecter.py\<close>:
  \<^verbatim>\<open>if not self._data_q.full(): self._data_q.put_nowait(o)\<close>.\<close>

definition push_new :: "'a queue \<Rightarrow> 'a \<Rightarrow> 'a queue" where
  "push_new q x = (if \<not> full q then (case put_nowait q x of Inr q' \<Rightarrow> q' | Inl _ \<Rightarrow> q) else q)"

text \<open>The push of one detection in \<^verbatim>\<open>OLD FILES/collector.py\<close>: \<^verbatim>\<open>put_nowait\<close>, and on
  \<^verbatim>\<open>queue.Full\<close> a \<^verbatim>\<open>get_nowait\<close> followed by a second \<^verbatim>\<open>put_nowait\<close>; \<^verbatim>\<open>queue.Empty\<close> is
  passed over. The last branch stands for a second \<^verbatim>\<open>queue.Full\<close>, which
  \<open>push_old_second_put\<close> shows cannot happen in a queue that is within its capacity.\<close>

definition push_old :: "'a queue \<Rightarrow> 'a \<Rightarrow> 'a queue" where
  "push_old q x =
     (case put_nowait q x of
        Inr q' \<Rightarrow> q'
      | Inl _ \<Rightarrow>
         (case get_nowait q of
            Inl _ \<Rightarrow> q
          | Inr (_, q1) \<Rightarrow> (case put_nowait q1 x of Inr q2 \<Rightarrow> q2 | Inl _ \<Rightarrow> q1)))"

text \<open>\<^verbatim>\<open>for o in objs: ...\<close> over the detections of one packet.\<close>

definition enqueue_new :: "'a queue \<Rightarrow> 'a list \<Rightarrow> 'a queue" where
  "enqueue_new q objs = foldl push_new q objs"

definition enqueue_old :: "'a queue \<Rightarrow> 'a list \<Rightarrow> 'a queue" where
  "enqueue_old q objs = foldl push_old q objs"

section \<open>Decoded values\<close>

text \<open>
  Python floats are kept as the term that computes them, so that two runs of the decoder
  give equal fields exactly when they compute them from the same bytes in the same way.
  No floating-point arithmetic is carried out in this theory.
\<close>

datatype pyfloat =
    F32 nat                              \<comment> \<open>\<^verbatim>\<open>'<f'\<close> unpacked from this 32-bit pattern\<close>
  | SqrtPow pyfloat pyfloat pyfloat     \<comment> \<open>\<^verbatim>\<open>math.sqrt(x**2 + y**2 + z**2)\<close>\<close>
  | SqrtMul pyfloat pyfloat pyfloat     \<comment> \<open>\<^verbatim>\<open>math.sqrt(x * x + y * y + z * z)\<close>\<close>
  | Tenth int                            \<comment> \<open>\<^verbatim>\<open>snr * 0.1\<close>\<close>
  | IntZero                              \<comment> \<open>the integer literal \<^verbatim>\<open>0\<close>\<close>
  | Round4 pyfloat                       \<comment> \<open>\<^verbatim>\<open>round(v, 4)\<close>\<close>

text \<open>
  Every \<^verbatim>\<open>MovingObject\<close> takes its timestamp from a call of \<^verbatim>\<open>time.time()\<close> of its own
  (the \<^verbatim>\<open>default_factory\<close> of the dataclass). A clock gives the readings of the calls
  that are still to come, in order: \<open>clock 0\<close> is the next one. \<open>later n clock\<close> is the
  clock after \<open>n\<close> readings have been taken. A reading is stored in the object and
  never computed with.
\<close>

type_synonym clock = "nat \<Rightarrow> real"

definition later :: "nat \<Rightarrow> clock \<Rightarrow> clock" where
  "later n clock = (\<lambda>i. clock (n + i))"

text \<open>The dict \<^verbatim>\<open>{'x': x, 'y': y, 'z': z, 'v': v}\<close> of one decoded point.\<close>

record point =
  p_x :: pyfloat
  p_y :: pyfloat
  p_z :: pyfloat
  p_v :: pyfloat

text \<open>The dataclass \<^verbatim>\<open>MovingObject\<close> of \<^verbatim>\<open>NEW FILES/collecter.py\<close>; the timestamp is the
  reading of \<^verbatim>\<open>time.time()\<close> at the moment the object is built.\<close>

record MovingObject =
  mo_x :: pyfloat
  mo_y :: pyfloat
  mo_z :: pyfloat
  mo_velocity :: pyfloat
  mo_rng :: pyfloat
  mo_snr :: pyfloat
  mo_timestamp :: real

text \<open>The dataclass \<^verbatim>\<open>MovingObject\<close> of \<^verbatim>\<open>OLD FILES/collector.py\<close>, which has no snr.\<close>

record MovingObject_old =
  old_x :: pyfloat
  old_y :: pyfloat
  old_z :: pyfloat
  old_velocity :: pyfloat
  old_rng :: pyfloat
  old_timestamp :: real

definition unpack_f32 :: "bytes \<Rightarrow> nat \<Rightarrow> pyfloat" where
  "unpack_f32 data off = F32 (le_uint (take 4 (drop off data)))"

section \<open>The packet decoder of \<^verbatim>\<open>NEW FILES/collecter.py\<close>\<close>

text \<open>TLV type 1: up to \<open>num_detected_obj\<close> quadruples \<^verbatim>\<open>'<ffff'\<close>, stopping when fewer than
  16 bytes are left.\<close>

fun decode_points :: "nat \<Rightarrow> bytes \<Rightarrow> point list" where
  "decode_points 0 tlv_data = []"
| "decode_points (Suc n) tlv_data =
     (if length tlv_data < 16 then []
      else \<lparr>p_x = unpack_f32 tlv_data 0, p_y = unpack_f32 tlv_data 4,
            p_z = unpack_f32 tlv_data 8, p_v = unpack_f32 tlv_data 12\<rparr>
           # decode_points n (drop 16 tlv_data))"

text \<open>TLV type 7: up to \<open>num_detected_obj\<close> pairs \<^verbatim>\<open>'<hh'\<close>, of which the first is the snr.\<close>

fun decode_side_info :: "nat \<Rightarrow> bytes \<Rightarrow> pyfloat list" where
  "decode_side_info 0 tlv_data = []"
| "decode_side_info (Suc n) tlv_data =
     (if length tlv_data < 4 then []
      else Tenth (le_int16 tlv_data) # decode_side_info n (drop 4 tlv_data))"

text \<open>The state of the TLV loop: \<open>offset\<close>, \<open>points\<close>, \<open>side_info\<close>. One pass of the loop
  body gives \<open>None\<close> where the source executes \<^verbatim>\<open>break\<close>.\<close>

type_synonym tlv_state = "nat \<times> point list \<times> pyfloat list"

definition tlv_body :: "bytes \<Rightarrow> nat \<Rightarrow> tlv_state \<Rightarrow> tlv_state option" where
  "tlv_body data num_detected_obj st =
     (case st of (offset, points, side_info) \<Rightarrow>
        if offset + TLV_HEADER_SIZE > length data then None
        else
          let tlv_type = le_uint (take 4 (drop offset data));
              tlv_length = le_uint (take 4 (drop (offset + 4) data));
              offset1 = offset + TLV_HEADER_SIZE
          in if offset1 + tlv_length > length data then None
             else
               let tlv_data = take tlv_length (drop offset1 data)
               in Some (offset1 + tlv_length,
                        (if tlv_type = 1 then points @ decode_points num_detected_obj tlv_data
                         else points),
                        (if tlv_type \<noteq> 1 \<and> tlv_type = 7
                         then side_info @ decode_side_info num_detected_obj tlv_data
                         else side_info)))"

text \<open>\<^verbatim>\<open>for _ in range(num_tlvs): ...\<close>\<close>

fun tlv_loop :: "nat \<Rightarrow> bytes \<Rightarrow> nat \<Rightarrow> tlv_state \<Rightarrow> tlv_state" where
  "tlv_loop 0 data num_detected_obj st = st"
| "tlv_loop (Suc n) data num_detected_obj st =
     (case tlv_body data num_detected_obj st of
        None \<Rightarrow> st
      | Some st' \<Rightarrow> tlv_loop n data num_detected_obj st')"

text \<open>\<^verbatim>\<open>for i, p in enumerate(points): ...\<close>: positional pairing with the side info. The
  object of point \<open>i\<close> is the \<open>i\<close>-th one built, and takes the \<open>i\<close>-th reading of the
  clock.\<close>

definition make_objects :: "clock \<Rightarrow> point list \<Rightarrow> pyfloat list \<Rightarrow> MovingObject list" where
  "make_objects clock points side_info =
     map (\<lambda>(i, p).
            \<lparr>mo_x = p_x p, mo_y = p_y p, mo_z = p_z p, mo_velocity = p_v p,
             mo_rng = SqrtPow (p_x p) (p_y p) (p_z p),
             mo_snr = (if i < length side_info then side_info ! i else IntZero),
             mo_timestamp = clock i\<rparr>)
         (enumerate 0 points)"

text \<open>\<^verbatim>\<open>_parse_packet(data, header_len)\<close>. The two header reads at offsets 28 and 32 are
  not guarded in the source: on a packet of fewer than 36 bytes they raise struct.error.\<close>

definition parse_packet :: "clock \<Rightarrow> bytes \<Rightarrow> nat \<Rightarrow> error + MovingObject list" where
  "parse_packet clock data header_len =
     (case unpack_u32 data 28 of
        Inl e \<Rightarrow> Inl e
      | Inr num_detected_obj \<Rightarrow>
         (case unpack_u32 data 32 of
            Inl e \<Rightarrow> Inl e
          | Inr num_tlvs \<Rightarrow>
             (case tlv_loop num_tlvs data num_detected_obj (header_len, [], []) of
                (offset, points, side_info) \<Rightarrow> Inr (make_objects clock points side_info))))"

section \<open>The packet decoder of \<^verbatim>\<open>OLD FILES/collector.py\<close>\<close>

text \<open>TLV type 1 in the old decoder: every whole 16-byte object of the payload,
  \<^verbatim>\<open>for i in range(0, len(tlv_data), 16)\<close> with a \<^verbatim>\<open>break\<close> at a partial one. \<open>k\<close> is
  the number of objects built before, so that the next one takes reading \<open>k\<close> of the
  clock.\<close>

function decode_objects_old :: "clock \<Rightarrow> nat \<Rightarrow> bytes \<Rightarrow> MovingObject_old list" where
  "decode_objects_old clock k tlv_data =
     (if length tlv_data < 16 then []
      else
        (let vx = unpack_f32 tlv_data 0; vy = unpack_f32 tlv_data 4;
             vz = unpack_f32 tlv_data 8; vv = unpack_f32 tlv_data 12
         in \<lparr>old_x = Round4 vx, old_y = Round4 vy, old_z = Round4 vz,
              old_velocity = Round4 vv, old_rng = Round4 (SqrtMul vx vy vz),
              old_timestamp = clock k\<rparr>)
        # decode_objects_old clock (Suc k) (drop 16 tlv_data))"
  by pat_completeness auto
termination
  by (relation "measure (\<lambda>(clock, k, d). length d)") auto

declare decode_objects_old.simps [simp del]

text \<open>\<^verbatim>\<open>while offset + 8 <= len(data): ...\<close>. A TLV of length 0 is skipped with
  \<^verbatim>\<open>continue\<close>; a payload that overruns the packet ends the loop.\<close>

function tlv_loop_old :: "clock \<Rightarrow> bytes \<Rightarrow> nat \<Rightarrow> MovingObject_old list \<Rightarrow> MovingObject_old list" where
  "tlv_loop_old clock data offset moving =
     (if offset + 8 \<le> length data then
        let tlv_type = le_uint (take 4 (drop offset data));
            tlv_length = le_uint (take 4 (drop (offset + 4) data));
            offset1 = offset + 8
        in if tlv_length = 0 then tlv_loop_old clock data offset1 moving
           else if offset1 + tlv_length > length data then moving
           else
             let tlv_data = take tlv_length (drop offset1 data)
             in tlv_loop_old clock data (offset1 + tlv_length)
                  (if tlv_type = 1
                   then moving @ decode_objects_old clock (length moving) tlv_data
                   else moving)
      else moving)"
  by pat_completeness auto
termination
  by (relation "measure (\<lambda>(clock, data, offset, moving). length data - offset)") auto

declare tlv_loop_old.simps [simp del]

text \<open>\<^verbatim>\<open>_parse_packet(data)\<close> of the old collector, with its fixed header length of 40.\<close>

definition parse_packet_old :: "clock \<Rightarrow> bytes \<Rightarrow> MovingObject_old list" where
  "parse_packet_old clock data =
     (let header_len = 40
      in if length data < header_len then [] else tlv_loop_old clock data header_len [])"

section \<open>The collector of \<^verbatim>\<open>NEW FILES/collecter.py\<close>\<close>

text \<open>A \<^verbatim>\<open>serial.Serial\<close> object and a \<^verbatim>\<open>threading.Thread\<close>, as far as the collector
  looks at them.\<close>

record serial_port =
  sp_port :: string
  sp_baud :: int
  is_open :: bool

record py_thread =
  is_alive :: bool

text \<open>The attributes of \<^verbatim>\<open>SerialCollector\<close>; \<open>stop_event\<close> is the flag of the
  \<^verbatim>\<open>threading.Event\<close>. The lock has no state of its own and is left out.\<close>

record collector =
  data_port :: string
  data_baud :: int
  ser_data :: "serial_port option"
  thread :: "py_thread option"
  stop_event :: bool
  data_q :: "MovingObject queue"
  buffer :: bytes

text \<open>What the collector does to the world outside it: which ports can be opened, the
  ports it has opened so far and the number of threads it has started.\<close>

record world =
  openable :: "string \<Rightarrow> bool"
  opened :: "string list"
  spawned :: nat

text \<open>\<^verbatim>\<open>__init__(data_port, data_baud, queue_max)\<close>; \<open>pyserial\<close> says whether the import of
  \<^verbatim>\<open>serial\<close> succeeded.\<close>

definition init :: "bool \<Rightarrow> string \<Rightarrow> int \<Rightarrow> int \<Rightarrow> error + collector" where
  "init pyserial port baud queue_max =
     (if \<not> pyserial then Inl SerialReadError
      else Inr \<lparr>data_port = port, data_baud = baud, ser_data = None, thread = None,
                stop_event = False, data_q = \<lparr>maxsize = queue_max, items = []\<rparr>,
                buffer = []\<rparr>)"

definition running :: "collector \<Rightarrow> bool" where
  "running c = (case thread c of None \<Rightarrow> False | Some t \<Rightarrow> is_alive t)"

definition start :: "world \<Rightarrow> collector \<Rightarrow> error + (world \<times> collector)" where
  "start w c =
     (if running c then Inr (w, c)
      else if \<not> openable w (data_port c) then Inl SerialReadError
      else
        let c1 = c\<lparr>ser_data := Some \<lparr>sp_port = data_port c, sp_baud = data_baud c,
                                     is_open = True\<rparr>\<rparr>;
            w1 = w\<lparr>opened := opened w @ [data_port c]\<rparr>;
            c2 = c1\<lparr>stop_event := False\<rparr>;
            c3 = c2\<lparr>thread := Some \<lparr>is_alive = True\<rparr>\<rparr>
        in Inr (w1\<lparr>spawned := Suc (spawned w1)\<rparr>, c3))"

text \<open>\<^verbatim>\<open>stop()\<close>; \<open>exits\<close> says whether the reader thread leaves its loop within the
  one second that \<^verbatim>\<open>join(timeout=1.0)\<close> waits.\<close>

definition stop :: "bool \<Rightarrow> collector \<Rightarrow> collector" where
  "stop exits c =
     (let c1 = c\<lparr>stop_event := True\<rparr>;
          c2 = (case thread c1 of
                  None \<Rightarrow> c1
                | Some t \<Rightarrow> c1\<lparr>thread := Some (t\<lparr>is_alive := is_alive t \<and> \<not> exits\<rparr>)\<rparr>)
      in case ser_data c2 of
           None \<Rightarrow> c2
         | Some s \<Rightarrow> if is_open s then c2\<lparr>ser_data := Some (s\<lparr>is_open := False\<rparr>)\<rparr> else c2)"

text \<open>\<^verbatim>\<open>_process_buffer()\<close>. The result is the collector after the call, the packets that
  were sliced off the buffer and handed to \<^verbatim>\<open>_parse_packet\<close>, in order, and the exception
  that left the loop, if one did. The decoder reads the clock once for each object it
  builds, and the rest of the loop goes on with the clock after those readings.\<close>

function process_buffer :: "clock \<Rightarrow> collector \<Rightarrow> collector \<times> bytes list \<times> error option" where
  "process_buffer clock c =
     (case find_bytes MAGIC_WORD (buffer c) of
        None \<Rightarrow> (c, [], None)
      | Some idx \<Rightarrow>
         let buf = drop idx (buffer c)
         in (case unpack_u32 buf 8 of
               Inl e \<Rightarrow> (c\<lparr>buffer := buf\<rparr>, [], None)
             | Inr header_len \<Rightarrow>
                (case unpack_u32 buf 12 of
                   Inl e \<Rightarrow> (c\<lparr>buffer := buf\<rparr>, [], None)
                 | Inr total_packet_len \<Rightarrow>
                    if length buf < total_packet_len then (c\<lparr>buffer := buf\<rparr>, [], None)
                    else
                      let packet = take total_packet_len buf;
                          c1 = c\<lparr>buffer := drop total_packet_len buf\<rparr>
                      in (case parse_packet clock packet header_len of
                            Inl e \<Rightarrow> (c1, [packet], Some e)
                          | Inr objs \<Rightarrow>
                             (case process_buffer (later (length objs) clock)
                                     (c1\<lparr>data_q := enqueue_new (data_q c1) objs\<rparr>) of
                                (c3, packets, e) \<Rightarrow> (c3, packet # packets, e))))))"
  by pat_completeness auto
termination
proof (relation "measure (\<lambda>(clock, c). length (buffer c))", goal_cases)
  case 1
  show ?case by simp
next
  case (2 clock c idx buf header_len total_packet_len packet c1 objs)
  from 2(8) have "36 \<le> length packet"
    by (auto simp: parse_packet_def unpack_u32_def split: if_splits sum.splits)
  with 2 show ?case by auto
qed

declare process_buffer.simps [simp del]

text \<open>One turn of \<^verbatim>\<open>_read_loop\<close> with bytes waiting: the chunk is appended and the buffer
  processed; an exception of the processing is logged and the loop goes on. A chunk
  comes with the clock at the time it is read.\<close>

definition read_chunk :: "clock \<times> bytes \<Rightarrow> collector \<Rightarrow> collector" where
  "read_chunk tc c = fst (process_buffer (fst tc) (c\<lparr>buffer := buffer c @ snd tc\<rparr>))"

definition read_chunks :: "(clock \<times> bytes) list \<Rightarrow> collector \<Rightarrow> collector" where
  "read_chunks tcs c = foldl (\<lambda>c tc. read_chunk tc c) c tcs"

section \<open>Frame synchronisation in \<^verbatim>\<open>OLD FILES/collector.py\<close>\<close>

text \<open>The two attributes of the old collector that its \<^verbatim>\<open>_process_buffer\<close> touches.\<close>

record collector_old =
  data_q_old :: "MovingObject_old queue"
  buffer_old :: bytes

text \<open>\<^verbatim>\<open>_process_buffer()\<close> of the old collector; the result is the collector after the
  call and the packets handed to \<^verbatim>\<open>_parse_packet\<close>. The read at offset 12 cannot fail on
  a buffer of 40 bytes; its handler is kept as the source has it.\<close>

function process_buffer_old :: "clock \<Rightarrow> collector_old \<Rightarrow> collector_old \<times> bytes list" where
  "process_buffer_old clock c =
     (case find_bytes MAGIC_WORD (buffer_old c) of
        None \<Rightarrow>
          ((if length (buffer_old c) > 2 * 1024
            then c\<lparr>buffer_old := drop (length (buffer_old c) - length MAGIC_WORD * 2)
                                       (buffer_old c)\<rparr>
            else c), [])
      | Some idx \<Rightarrow>
         let buf = drop idx (buffer_old c)
         in if length buf < 40 then (c\<lparr>buffer_old := buf\<rparr>, [])
            else
              (case unpack_u32 buf 12 of
                 Inl e \<Rightarrow> process_buffer_old clock (c\<lparr>buffer_old := drop (length MAGIC_WORD) buf\<rparr>)
               | Inr total_packet_len \<Rightarrow>
                  if total_packet_len \<le> 0 \<or> total_packet_len > 65536
                  then process_buffer_old clock (c\<lparr>buffer_old := drop (length MAGIC_WORD) buf\<rparr>)
                  else if length buf < total_packet_len then (c\<lparr>buffer_old := buf\<rparr>, [])
                  else
                    let packet = take total_packet_len buf;
                        c1 = c\<lparr>buffer_old := drop total_packet_len buf\<rparr>;
                        objs = parse_packet_old clock packet
                    in (case process_buffer_old (later (length objs) clock)
                               (c1\<lparr>data_q_old := enqueue_old (data_q_old c1) objs\<rparr>) of
                          (c3, packets) \<Rightarrow> (c3, packet # packets))))"
  by pat_completeness auto
termination
  by (relation "measure (\<lambda>(clock, c). length (buffer_old c))")
     (auto simp: MAGIC_WORD_def)

declare process_buffer_old.simps [simp del]

definition read_chunk_old :: "clock \<times> bytes \<Rightarrow> collector_old \<Rightarrow> collector_old" where
  "read_chunk_old tc c = fst (process_buffer_old (fst tc) (c\<lparr>buffer_old := buffer_old c @ snd tc\<rparr>))"

definition read_chunks_old :: "(clock \<times> bytes) list \<Rightarrow> collector_old \<Rightarrow> collector_old" where
  "read_chunks_old tcs c = foldl (\<lambda>c tc. read_chunk_old tc c) c tcs"

section \<open>The classifier of \<^verbatim>\<open>NEW FILES/detection.py\<close>\<close>

text \<open>
  The classifier computes with the floats of pandas and numpy. Their arithmetic is not
  carried out here: the type \<open>'f\<close> of the floats and the library operations that the
  classifier calls on them are parameters of the model, so that every statement below
  holds for the rounded arithmetic of IEEE doubles, NaN included, as for any other
  reading of the operations. The comparisons are the ones the source writes:
  \<open>f_lt a b\<close> is \<^verbatim>\<open>a < b\<close> and \<open>f_gt a b\<close> is \<^verbatim>\<open>a > b\<close>.
\<close>

record 'f float_ops =
  f_lt :: "'f \<Rightarrow> 'f \<Rightarrow> bool"        \<comment> \<open>\<^verbatim>\<open>a < b\<close>\<close>
  f_gt :: "'f \<Rightarrow> 'f \<Rightarrow> bool"        \<comment> \<open>\<^verbatim>\<open>a > b\<close>\<close>
  f_sub :: "'f \<Rightarrow> 'f \<Rightarrow> 'f"         \<comment> \<open>\<^verbatim>\<open>a - b\<close>\<close>
  f_hypot :: "'f \<Rightarrow> 'f \<Rightarrow> 'f"       \<comment> \<open>\<^verbatim>\<open>np.sqrt(a**2 + b**2)\<close>\<close>
  f_abs :: "'f \<Rightarrow> 'f"                  \<comment> \<open>one entry of \<^verbatim>\<open>Series.abs()\<close>\<close>
  f_min :: "'f list \<Rightarrow> 'f"             \<comment> \<open>\<^verbatim>\<open>.min()\<close> of a column\<close>
  f_max :: "'f list \<Rightarrow> 'f"             \<comment> \<open>\<^verbatim>\<open>.max()\<close> of a column\<close>
  f_mean :: "'f list \<Rightarrow> 'f"            \<comment> \<open>\<^verbatim>\<open>.mean()\<close> of a column\<close>

text \<open>A batch is a \<^verbatim>\<open>DataFrame\<close> with the columns x, y, z and velocity in every row; the
  columns \<^verbatim>\<open>cluster_id\<close> and \<^verbatim>\<open>label\<close> are there or not.\<close>

datatype label = Clutter | Human | Moving | Static

record 'f df_row =
  c_x :: 'f
  c_y :: 'f
  c_z :: 'f
  c_velocity :: 'f

record 'f dataframe =
  rows :: "'f df_row list"
  cluster_id_col :: "int list option"
  label_col :: "label list option"

text \<open>The attributes of \<^verbatim>\<open>HumanDetector\<close>, and one entry of \<^verbatim>\<open>human_info\<close>.\<close>

record 'f HumanDetector =
  eps :: 'f
  min_samples :: int
  min_points_human :: int
  max_human_width :: 'f
  min_human_height :: 'f
  max_human_height :: 'f
  movement_threshold :: 'f

record 'f human =
  h_id :: int
  h_centroid :: "'f \<times> 'f \<times> 'f"
  h_points :: nat

text \<open>\<^verbatim>\<open>DBSCAN(eps, min_samples).fit(coords).labels_\<close> of scikit-learn is a parameter of
  the model: one cluster id for each row, -1 for noise.\<close>

type_synonym 'f dbscan = "'f \<Rightarrow> int \<Rightarrow> ('f \<times> 'f \<times> 'f) list \<Rightarrow> int list"

text \<open>\<^verbatim>\<open>_is_human_cluster(cluster)\<close>.\<close>

definition is_human_cluster :: "'f float_ops \<Rightarrow> 'f HumanDetector \<Rightarrow> 'f df_row list \<Rightarrow> bool" where
  "is_human_cluster ops d cluster =
     (if int (length cluster) < min_points_human d then False
      else
        let width_x = f_sub ops (f_max ops (map c_x cluster)) (f_min ops (map c_x cluster));
            width_y = f_sub ops (f_max ops (map c_y cluster)) (f_min ops (map c_y cluster));
            height = f_sub ops (f_max ops (map c_z cluster)) (f_min ops (map c_z cluster));
            horizontal_spread = f_hypot ops width_x width_y
        in if \<not> (f_lt ops (min_human_height d) height \<and> f_lt ops height (max_human_height d))
           then False
           else if f_gt ops horizontal_spread (max_human_width d) then False
           else True)"

text \<open>\<^verbatim>\<open>Series.unique()\<close>: the distinct values in the order of their first
  appearance.\<close>

definition unique :: "int list \<Rightarrow> int list" where
  "unique xs = rev (remdups (rev xs))"

text \<open>\<^verbatim>\<open>df[df['cluster_id'] == cid]\<close> and
  \<^verbatim>\<open>df.loc[df['cluster_id'] == cid, 'label'] = l\<close>.\<close>

definition select_cluster :: "'f dataframe \<Rightarrow> int \<Rightarrow> 'f df_row list" where
  "select_cluster df cid =
     (case cluster_id_col df of
        None \<Rightarrow> []
      | Some cids \<Rightarrow> map fst (filter (\<lambda>(row, c). c = cid) (zip (rows df) cids)))"

definition loc_set_label :: "'f dataframe \<Rightarrow> int \<Rightarrow> label \<Rightarrow> 'f dataframe" where
  "loc_set_label df cid l =
     (case cluster_id_col df of
        None \<Rightarrow> df
      | Some cids \<Rightarrow>
         (case label_col df of
            None \<Rightarrow> df
          | Some ls \<Rightarrow>
             df\<lparr>label_col := Some (map (\<lambda>(c, old). if c = cid then l else old) (zip cids ls))\<rparr>))"

text \<open>The body of \<^verbatim>\<open>for cid in unique_clusters\<close>, on the batch and \<^verbatim>\<open>human_info\<close>.\<close>

definition label_cluster ::
  "'f float_ops \<Rightarrow> 'f HumanDetector \<Rightarrow> 'f dataframe \<times> 'f human list \<Rightarrow> int
   \<Rightarrow> 'f dataframe \<times> 'f human list" where
  "label_cluster ops d st cid =
     (case st of (df, human_info) \<Rightarrow>
        let cluster_df = select_cluster df cid
        in if is_human_cluster ops d cluster_df
           then (loc_set_label df cid Human,
                 human_info @
                   [\<lparr>h_id = cid,
                     h_centroid = (f_mean ops (map c_x cluster_df),
                                   f_mean ops (map c_y cluster_df),
                                   f_mean ops (map c_z cluster_df)),
                     h_points = length cluster_df\<rparr>])
           else
             let avg_velocity = f_mean ops (map (\<lambda>row. f_abs ops (c_velocity row)) cluster_df)
             in if f_gt ops avg_velocity (movement_threshold d)
                then (loc_set_label df cid Moving, human_info)
                else (loc_set_label df cid Static, human_info))"

text \<open>
  \<^verbatim>\<open>process(df)\<close>. Python passes the batch by reference, and every assignment of
  \<^verbatim>\<open>process\<close> (\<^verbatim>\<open>df['cluster_id'] = ...\<close>, \<^verbatim>\<open>df['label'] = ...\<close>, \<^verbatim>\<open>df.loc[...] = ...\<close>) changes
  the object behind that reference; \<^verbatim>\<open>df\<close> is never rebound. The heap maps references to
  objects, \<open>df\<close> is the reference the caller passes, and the result holds the heap after
  the call and the reference that is returned. A \<^verbatim>\<open>labels_\<close> of the wrong length makes
  the first assignment raise ValueError.
\<close>

type_synonym 'f heap = "nat \<Rightarrow> 'f dataframe"

definition process ::
  "'f float_ops \<Rightarrow> 'f dbscan \<Rightarrow> 'f HumanDetector \<Rightarrow> 'f heap \<Rightarrow> nat
   \<Rightarrow> error + ('f heap \<times> nat \<times> 'f human list)" where
  "process ops db d h df =
     (if rows (h df) = [] then Inr (h, df, [])
      else
        let coords = map (\<lambda>row. (c_x row, c_y row, c_z row)) (rows (h df));
            labels = db (eps d) (min_samples d) coords
        in if length labels \<noteq> length (rows (h df)) then Inl ValueError
           else
             let h1 = h(df := (h df)\<lparr>cluster_id_col := Some labels\<rparr>);
                 h2 = h1(df := (h1 df)\<lparr>label_col :=
                                          Some (replicate (length (rows (h1 df))) Clutter)\<rparr>);
                 unique_clusters = unique (filter (\<lambda>c. c \<noteq> - 1) labels)
             in (case foldl (label_cluster ops d) (h2 df, []) unique_clusters of
                   (df3, human_info) \<Rightarrow> Inr (h2(df := df3), df, human_info)))"

section \<open>Vocabulary of the properties\<close>

text \<open>\<open>tlv_steps k\<close> runs the body of the TLV loop \<open>k\<close> times and is \<open>None\<close> as soon as
  one of them breaks: \<open>Some st\<close> says that the first \<open>k\<close> TLVs are well-formed and that
  \<open>st\<close> is the loop state after them. \<open>tlv_overrun\<close> is the condition of the two
  \<^verbatim>\<open>break\<close> statements: the TLV header, or the payload it declares, passes the end of
  the packet.\<close>

fun tlv_steps :: "nat \<Rightarrow> bytes \<Rightarrow> nat \<Rightarrow> tlv_state \<Rightarrow> tlv_state option" where
  "tlv_steps 0 data num_detected_obj st = Some st"
| "tlv_steps (Suc k) data num_detected_obj st =
     (case tlv_body data num_detected_obj st of
        None \<Rightarrow> None
      | Some st' \<Rightarrow> tlv_steps k data num_detected_obj st')"

definition tlv_overrun :: "bytes \<Rightarrow> nat \<Rightarrow> bool" where
  "tlv_overrun data offset =
     (offset + TLV_HEADER_SIZE > length data
      \<or> offset + TLV_HEADER_SIZE + le_uint (take 4 (drop (offset + 4) data)) > length data)"

text \<open>The fields of a detection that are decoded from the bytes of the frame: all but the
  timestamp.\<close>

definition decoded_fields ::
  "MovingObject \<Rightarrow> pyfloat \<times> pyfloat \<times> pyfloat \<times> pyfloat \<times> pyfloat \<times> pyfloat" where
  "decoded_fields obj = (mo_x obj, mo_y obj, mo_z obj, mo_velocity obj, mo_rng obj, mo_snr obj)"

text \<open>A valid frame starts with the marker, declares its own length at offset 12, and that
  length passes the sanity check of the old collector and covers its 40-byte header.
  Noise is marker-free when the marker does not occur in it.\<close>

definition valid_frame :: "bytes \<Rightarrow> bool" where
  "valid_frame f = (take 8 f = MAGIC_WORD \<and> unpack_u32 f 12 = Inr (length f)
                    \<and> 40 \<le> length f \<and> length f \<le> 65536)"

definition marker_free :: "bytes \<Rightarrow> bool" where
  "marker_free n = (find_bytes MAGIC_WORD n = None)"

text \<open>A stream of frames, each preceded by noise, and a last stretch of noise.\<close>

fun stream_of :: "(bytes \<times> bytes) list \<Rightarrow> bytes \<Rightarrow> bytes" where
  "stream_of [] tail_noise = tail_noise"
| "stream_of ((n, f) # nfs) tail_noise = n @ f @ stream_of nfs tail_noise"

text \<open>The label that one pass of the loop body gives the rows of a cluster.\<close>

definition classify :: "'f float_ops \<Rightarrow> 'f HumanDetector \<Rightarrow> 'f df_row list \<Rightarrow> label" where
  "classify ops d cluster =
     (if is_human_cluster ops d cluster then Human
      else if f_gt ops (f_mean ops (map (\<lambda>row. f_abs ops (c_velocity row)) cluster))
                (movement_threshold d)
      then Moving
      else Static)"

section \<open>Example data\<close>

definition example_collector :: collector where
  "example_collector =
     \<lparr>data_port = ''COM3'', data_baud = 921600, ser_data = None, thread = None,
      stop_event = False, data_q = \<lparr>maxsize = 20000, items = []\<rparr>, buffer = []\<rparr>"

definition example_collector_old :: collector_old where
  "example_collector_old = \<lparr>data_q_old = \<lparr>maxsize = 20000, items = []\<rparr>, buffer_old = []\<rparr>"

definition example_world :: world where
  "example_world = \<lparr>openable = (\<lambda>port. True), opened = [], spawned = 0\<rparr>"

text \<open>The collector and the world after one \<^verbatim>\<open>start()\<close>.\<close>

definition example_running :: collector where
  "example_running =
     \<lparr>data_port = ''COM3'', data_baud = 921600,
      ser_data = Some \<lparr>sp_port = ''COM3'', sp_baud = 921600, is_open = True\<rparr>,
      thread = Some \<lparr>is_alive = True\<rparr>,
      stop_event = False, data_q = \<lparr>maxsize = 20000, items = []\<rparr>, buffer = []\<rparr>"

definition example_world_started :: world where
  "example_world_started = \<lparr>openable = (\<lambda>port. True), opened = [''COM3''], spawned = 1\<rparr>"

text \<open>A frame of 64 bytes: header length 40, total length 64, one detected object, one
  TLV of type 1 with the quadruple (1.0, 2.0, 3.0, 0.5).\<close>

definition example_frame :: bytes where
  "example_frame =
     [2, 1, 4, 3, 6, 5, 8, 7,  40, 0, 0, 0,  64, 0, 0, 0,
      0, 0, 0, 0, 0, 0, 0, 0, 0, 0, 0, 0,  1, 0, 0, 0,  1, 0, 0, 0,  0, 0, 0, 0,
      1, 0, 0, 0,  16, 0, 0, 0,
      0, 0, 128, 63,  0, 0, 0, 64,  0, 0, 64, 64,  0, 0, 0, 63]"

text \<open>That frame in three chunks, read when the clock shows 1, 2 and 3.\<close>

definition example_chunks :: "(clock \<times> bytes) list" where
  "example_chunks =
     [(\<lambda>i. 1, take 5 example_frame), (\<lambda>i. 2, take 15 (drop 5 example_frame)),
      (\<lambda>i. 3, drop 20 example_frame)]"

text \<open>The same frame declaring two TLVs, of which the second, of type 7, declares 100
  bytes and has four.\<close>

definition example_truncated :: bytes where
  "example_truncated =
     [2, 1, 4, 3, 6, 5, 8, 7,  40, 0, 0, 0,  76, 0, 0, 0,
      0, 0, 0, 0, 0, 0, 0, 0, 0, 0, 0, 0,  1, 0, 0, 0,  2, 0, 0, 0,  0, 0, 0, 0,
      1, 0, 0, 0,  16, 0, 0, 0,
      0, 0, 128, 63,  0, 0, 0, 64,  0, 0, 64, 64,  0, 0, 0, 63,
      7, 0, 0, 0,  100, 0, 0, 0,  50, 0, 9, 0]"

text \<open>A frame of 40 bytes with no TLV, and 16 bytes of noise that hold the marker and
  declare a total length of 30.\<close>

definition example_small_frame :: bytes where
  "example_small_frame =
     [2, 1, 4, 3, 6, 5, 8, 7,  40, 0, 0, 0,  40, 0, 0, 0,
      0, 0, 0, 0, 0, 0, 0, 0, 0, 0, 0, 0, 0, 0, 0, 0, 0, 0, 0, 0, 0, 0, 0, 0]"

definition example_noise :: bytes where
  "example_noise = [2, 1, 4, 3, 6, 5, 8, 7,  40, 0, 0, 0,  30, 0, 0, 0]"

text \<open>Forty buffered bytes whose header declares a total length of 20, of 70000, and
  of 0.\<close>

definition example_short_length :: bytes where
  "example_short_length =
     [2, 1, 4, 3, 6, 5, 8, 7,  40, 0, 0, 0,  20, 0, 0, 0,
      0, 0, 0, 0, 0, 0, 0, 0, 0, 0, 0, 0, 0, 0, 0, 0, 0, 0, 0, 0, 0, 0, 0, 0]"

definition example_long_length :: bytes where
  "example_long_length =
     [2, 1, 4, 3, 6, 5, 8, 7,  40, 0, 0, 0,  112, 17, 1, 0,
      0, 0, 0, 0, 0, 0, 0, 0, 0, 0, 0, 0, 0, 0, 0, 0, 0, 0, 0, 0, 0, 0, 0, 0]"

definition example_zero_length :: bytes where
  "example_zero_length =
     [2, 1, 4, 3, 6, 5, 8, 7,  40, 0, 0, 0,  0, 0, 0, 0,
      0, 0, 0, 0, 0, 0, 0, 0, 0, 0, 0, 0, 0, 0, 0, 0, 0, 0, 0, 0, 0, 0, 0, 0]"

text \<open>For the examples the operations are given one reading, exact arithmetic on real
  numbers. On the example batch below the doubles of the source compute the same: its
  coordinates and velocities are 0, 1 and 5, every extent, square root and mean of them
  is 0, 1 or one half, which doubles hold exactly, and none of them is the nearest double
  of a threshold.\<close>

definition example_ops :: "real float_ops" where
  "example_ops =
     \<lparr>f_lt = (\<lambda>a b. a < b), f_gt = (\<lambda>a b. a > b), f_sub = (\<lambda>a b. a - b),
      f_hypot = (\<lambda>a b. sqrt (a\<^sup>2 + b\<^sup>2)), f_abs = (\<lambda>a. \<bar>a\<bar>),
      f_min = (\<lambda>xs. fold min (tl xs) (hd xs)), f_max = (\<lambda>xs. fold max (tl xs) (hd xs)),
      f_mean = (\<lambda>xs. sum_list xs / real (length xs))\<rparr>"

text \<open>A batch of three rows at reference 7, a detector that takes two points for a human,
  and a clustering that puts the first two rows into cluster 0 and the third into
  cluster 1.\<close>

definition example_detector :: "real HumanDetector" where
  "example_detector =
     \<lparr>eps = 0.5, min_samples = 5, min_points_human = 2, max_human_width = 1.2,
      min_human_height = 0.8, max_human_height = 2.0, movement_threshold = 0.1\<rparr>"

definition example_batch :: "real dataframe" where
  "example_batch =
     \<lparr>rows = [\<lparr>c_x = 0, c_y = 0, c_z = 0, c_velocity = 0\<rparr>,
              \<lparr>c_x = 0, c_y = 0, c_z = 1, c_velocity = 0\<rparr>,
              \<lparr>c_x = 5, c_y = 5, c_z = 0, c_velocity = 1\<rparr>],
      cluster_id_col = None, label_col = None\<rparr>"

definition example_dbscan :: "real dbscan" where
  "example_dbscan e m coords = [0, 0, 1]"

definition example_heap :: "real heap" where
  "example_heap =
     (\<lambda>r. \<lparr>rows = [], cluster_id_col = None, label_col = None\<rparr>)(7 := example_batch)"

section \<open>Queue properties\<close>

lemma push_old_second_put:
  "int (qsize q) \<le> maxsize q \<Longrightarrow> put_nowait q x = Inl e \<Longrightarrow> get_nowait q = Inr (y, q1)
   \<Longrightarrow> \<exists>q2. put_nowait q1 x = Inr q2"
  by (auto simp: put_nowait_def get_nowait_def full_def qsize_def split: if_splits list.splits)

lemma push_new_maxsize [simp]: "maxsize (push_new q x) = maxsize q"
  by (simp add: push_new_def put_nowait_def)

lemma push_old_maxsize [simp]: "maxsize (push_old q x) = maxsize q"
  by (auto simp: push_old_def put_nowait_def get_nowait_def split: list.splits)

lemma push_new_bounded:
  "0 < maxsize q \<Longrightarrow> int (qsize q) \<le> maxsize q \<Longrightarrow> int (qsize (push_new q x)) \<le> maxsize q"
  by (auto simp: push_new_def put_nowait_def full_def qsize_def)

lemma push_old_bounded:
  "0 < maxsize q \<Longrightarrow> int (qsize q) \<le> maxsize q \<Longrightarrow> int (qsize (push_old q x)) \<le> maxsize q"
  by (auto simp: push_old_def put_nowait_def get_nowait_def full_def qsize_def split: list.splits)

text \<open>
  Claim C5. A queue of capacity \<open>N > 0\<close> that holds exactly \<open>N\<close> items still holds exactly
  \<open>N\<close> items after one further push. In \<^verbatim>\<open>NEW FILES/collecter.py\<close> the arrival is dropped
  and the queue is unchanged; in \<^verbatim>\<open>OLD FILES/collector.py\<close> the oldest item is evicted and
  the arrival is appended. In both, a queue within its capacity stays within it.
\<close>

theorem ingest_queue_at_capacity:
  assumes "0 < maxsize q" and "int (qsize q) = maxsize q"
  shows "qsize (push_new q x) = qsize q \<and> items (push_new q x) = items q
       \<and> qsize (push_old q x) = qsize q \<and> items (push_old q x) = tl (items q) @ [x]"
  using assms
  by (auto simp: push_new_def push_old_def put_nowait_def get_nowait_def full_def qsize_def
           split: list.splits)

theorem ingest_queue_at_capacity_witness:
  "qsize (push_new \<lparr>maxsize = 2, items = [10, 20 :: nat]\<rparr> 30) = 2
   \<and> items (push_new \<lparr>maxsize = 2, items = [10, 20 :: nat]\<rparr> 30) = [10, 20]
   \<and> qsize (push_old \<lparr>maxsize = 2, items = [10, 20 :: nat]\<rparr> 30) = 2
   \<and> items (push_old \<lparr>maxsize = 2, items = [10, 20 :: nat]\<rparr> 30) = [20, 30]"
  using ingest_queue_at_capacity [of "\<lparr>maxsize = 2, items = [10, 20 :: nat]\<rparr>" 30]
  by (simp add: qsize_def)

section \<open>The TLV loop\<close>

lemma tlv_body_overrun:
  "tlv_overrun data offset \<Longrightarrow> tlv_body data n (offset, points, side_info) = None"
  by (auto simp: tlv_overrun_def tlv_body_def Let_def)

lemma tlv_body_None_iff:
  "tlv_body data n (offset, points, side_info) = None \<longleftrightarrow> tlv_overrun data offset"
  by (auto simp: tlv_overrun_def tlv_body_def Let_def)

lemma tlv_loop_steps:
  "tlv_steps k data n st = Some st' \<Longrightarrow> tlv_loop (k + m) data n st = tlv_loop m data n st'"
  by (induction k arbitrary: st) (auto split: option.splits)

lemma tlv_loop_stops:
  assumes "tlv_steps k data n st = Some (offset, points, side_info)"
    and "tlv_overrun data offset" and "k < num_tlvs"
  shows "tlv_loop num_tlvs data n st = (offset, points, side_info)"
proof -
  define m where "m = num_tlvs - Suc k"
  have m: "num_tlvs = k + Suc m"
    using assms(3) by (simp add: m_def)
  have "tlv_loop num_tlvs data n st = tlv_loop (Suc m) data n (offset, points, side_info)"
    unfolding m by (rule tlv_loop_steps [OF assms(1)])
  also have "\<dots> = (offset, points, side_info)"
    using tlv_body_overrun [OF assms(2)] by simp
  finally show ?thesis .
qed

lemma tlv_body_keeps:
  "tlv_body data n (offset, points, side_info) = Some (offset', points', side_info')
   \<Longrightarrow> (\<exists>ps. points' = points @ ps) \<and> (\<exists>ss. side_info' = side_info @ ss)"
  by (auto simp: tlv_body_def Let_def split: if_splits)

text \<open>
  Claim C6. In \<^verbatim>\<open>_parse_packet\<close> of \<^verbatim>\<open>NEW FILES/collecter.py\<close>, on a packet whose two
  header fields at offsets 28 and 32 can be read: when the first \<open>k\<close> TLVs are
  well-formed, fewer than the declared \<open>num_tlvs\<close>, and the header or the payload of the
  next one passes the end of the packet, the decoder stops there, raises nothing, and
  returns exactly the detections built from the points and the side info that the first
  \<open>k\<close> TLVs gave.
\<close>

theorem parse_packet_truncated_tlv:
  assumes "unpack_u32 data 28 = Inr num_detected_obj"
    and "unpack_u32 data 32 = Inr num_tlvs"
    and "k < num_tlvs"
    and "tlv_steps k data num_detected_obj (header_len, [], []) = Some (offset, points, side_info)"
    and "tlv_overrun data offset"
  shows "parse_packet clock data header_len = Inr (make_objects clock points side_info)"
  using tlv_loop_stops [OF assms(4) assms(5) assms(3)] assms(1,2)
  by (simp add: parse_packet_def)

theorem parse_packet_truncated_tlv_witness:
  "unpack_u32 example_truncated 28 = Inr 1
   \<and> unpack_u32 example_truncated 32 = Inr 2
   \<and> Suc 0 < 2
   \<and> tlv_steps (Suc 0) example_truncated 1 (40, [], [])
       = Some (64, [\<lparr>p_x = F32 1065353216, p_y = F32 1073741824,
                      p_z = F32 1077936128, p_v = F32 1056964608\<rparr>], [])
   \<and> tlv_overrun example_truncated 64
   \<and> parse_packet (\<lambda>i. 0) example_truncated 40
       = Inr [\<lparr>mo_x = F32 1065353216, mo_y = F32 1073741824, mo_z = F32 1077936128,
               mo_velocity = F32 1056964608,
               mo_rng = SqrtPow (F32 1065353216) (F32 1073741824) (F32 1077936128),
               mo_snr = IntZero, mo_timestamp = 0\<rparr>]"
proof -
  have h1: "unpack_u32 example_truncated 28 = Inr 1"
    by (simp add: unpack_u32_def example_truncated_def)
  have h2: "unpack_u32 example_truncated 32 = Inr 2"
    by (simp add: unpack_u32_def example_truncated_def)
  have h3: "Suc 0 < 2" by simp
  have h4: "tlv_steps (Suc 0) example_truncated 1 (40, [], [])
       = Some (64, [\<lparr>p_x = F32 1065353216, p_y = F32 1073741824,
                      p_z = F32 1077936128, p_v = F32 1056964608\<rparr>], [])"
    by (simp add: example_truncated_def tlv_body_def TLV_HEADER_SIZE_def unpack_f32_def)
  have h5: "tlv_overrun example_truncated 64"
    by (simp add: tlv_overrun_def example_truncated_def TLV_HEADER_SIZE_def)
  show ?thesis
    using parse_packet_truncated_tlv [OF h1 h2 h3 h4 h5, of "\<lambda>i. 0"] h1 h2 h4 h5
    by (simp add: make_objects_def enumerate_eq_zip)
qed

text \<open>The old decoder has no error path at all; a TLV that overruns the packet ends its
  loop with the objects decoded so far, and the loop only ever appends to them.\<close>

lemma tlv_loop_old_truncated:
  assumes "length data < offset + 8
           \<or> (le_uint (take 4 (drop (offset + 4) data)) \<noteq> 0
               \<and> length data < offset + 8 + le_uint (take 4 (drop (offset + 4) data)))"
  shows "tlv_loop_old clock data offset moving = moving"
  using assms by (subst tlv_loop_old.simps) (auto simp: Let_def)

lemma tlv_loop_old_keeps:
  "\<exists>more. tlv_loop_old clock data offset moving = moving @ more"
proof (induction clock data offset moving rule: tlv_loop_old.induct)
  case (1 clock data offset moving)
  show ?case
  proof (cases "offset + 8 \<le> length data")
    case False
    then show ?thesis by (subst tlv_loop_old.simps) simp
  next
    case True
    define tlv_type where "tlv_type = le_uint (take 4 (drop offset data))"
    define tlv_length where "tlv_length = le_uint (take 4 (drop (offset + 4) data))"
    consider "tlv_length = 0" | "tlv_length \<noteq> 0" "offset + 8 + tlv_length > length data"
      | "tlv_length \<noteq> 0" "\<not> offset + 8 + tlv_length > length data" by blast
    then show ?thesis
    proof cases
      case 1
      from "1.IH"(1) [OF True tlv_type_def tlv_length_def refl 1]
      obtain more where "tlv_loop_old clock data (offset + 8) moving = moving @ more" by blast
      then show ?thesis
        using True 1 by (subst tlv_loop_old.simps) (simp add: Let_def tlv_length_def)
    next
      case 2
      then show ?thesis
        using True by (subst tlv_loop_old.simps) (simp add: Let_def tlv_length_def)
    next
      case 3
      from "1.IH"(2) [OF True tlv_type_def tlv_length_def refl 3(1) 3(2) refl]
      obtain more where
        "tlv_loop_old clock data (offset + 8 + tlv_length)
           (if tlv_type = 1
            then moving @ decode_objects_old clock (length moving)
                            (take tlv_length (drop (offset + 8) data))
            else moving)
         = (if tlv_type = 1
            then moving @ decode_objects_old clock (length moving)
                            (take tlv_length (drop (offset + 8) data))
            else moving) @ more" by blast
      then show ?thesis
        using True 3
        by (subst tlv_loop_old.simps)
           (auto simp: Let_def tlv_length_def [symmetric] tlv_type_def [symmetric])
    qed
  qed
qed

section \<open>Starting and stopping the collector\<close>

lemma init_example: "init True ''COM3'' 921600 20000 = Inr example_collector"
  by (simp add: init_def example_collector_def)

lemma start_example:
  "start example_world example_collector = Inr (example_world_started, example_running)"
  by (simp add: start_def running_def example_world_def example_collector_def
                example_world_started_def example_running_def)

lemma start_twice:
  assumes "\<not> running c" and "start w c = Inr (w1, c1)"
  shows "running c1 \<and> opened w1 = opened w @ [data_port c] \<and> spawned w1 = Suc (spawned w)
       \<and> start w1 c1 = Inr (w1, c1)"
  using assms by (auto simp: start_def running_def Let_def split: if_splits)

text \<open>
  Claim C8. A call of \<^verbatim>\<open>start()\<close> on a collector that is running returns normally and
  changes nothing: the world is the same, so no port was opened and no thread started,
  and the collector is the same.
\<close>

theorem start_while_running:
  assumes "running c"
  shows "start w c = Inr (w, c)"
  using assms by (simp add: start_def)

theorem start_while_running_witness:
  "running example_running
   \<and> start example_world_started example_running
       = Inr (example_world_started, example_running)"
proof -
  have h: "running example_running"
    by (simp add: running_def example_running_def)
  show ?thesis
    using h start_while_running [OF h, of example_world_started] by simp
qed

text \<open>Claim C10, as stated, fails on the collector as \<^verbatim>\<open>__init__\<close> leaves it:
  \<^verbatim>\<open>stop()\<close> sets the stop event, which was clear.\<close>

theorem stop_never_started_counterexample:
  "stop True example_collector \<noteq> example_collector"
  by (simp add: stop_def example_collector_def)

text \<open>
  Claim C10, amended. \<^verbatim>\<open>stop()\<close> on a collector with no thread and no serial object
  returns normally; it sets the stop event and leaves every other attribute, the thread,
  the serial object, the buffer and the queue, as it was.
\<close>

theorem stop_never_started:
  assumes "thread c = None" and "ser_data c = None"
  shows "stop exits c = c\<lparr>stop_event := True\<rparr>"
  using assms by (simp add: stop_def)

theorem stop_never_started_witness:
  "thread example_collector = None \<and> ser_data example_collector = None
   \<and> stop True example_collector = example_collector\<lparr>stop_event := True\<rparr>"
proof -
  have h1: "thread example_collector = None" by (simp add: example_collector_def)
  have h2: "ser_data example_collector = None" by (simp add: example_collector_def)
  show ?thesis
    using h1 h2 stop_never_started [OF h1 h2, of True] by simp
qed

section \<open>Finding the marker\<close>

lemma length_MAGIC_WORD [simp]: "length MAGIC_WORD = 8"
  by (simp add: MAGIC_WORD_def)

lemma MAGIC_WORD_nonempty [simp]: "MAGIC_WORD \<noteq> []"
  by (simp add: MAGIC_WORD_def)

lemma find_bytes_None_iff:
  "find_bytes sub xs = None \<longleftrightarrow> (\<forall>i\<le>length xs. take (length sub) (drop i xs) \<noteq> sub)"
proof (induction xs)
  case Nil
  show ?case by auto
next
  case (Cons b bs)
  have "(\<forall>i\<le>length (b # bs). take (length sub) (drop i (b # bs)) \<noteq> sub)
        \<longleftrightarrow> take (length sub) (b # bs) \<noteq> sub
            \<and> (\<forall>i\<le>length bs. take (length sub) (drop i bs) \<noteq> sub)"
  proof
    assume a: "\<forall>i\<le>length (b # bs). take (length sub) (drop i (b # bs)) \<noteq> sub"
    have "take (length sub) (drop 0 (b # bs)) \<noteq> sub" using a by blast
    moreover have "take (length sub) (drop i bs) \<noteq> sub" if "i \<le> length bs" for i
      using a [rule_format, of "Suc i"] that by simp
    ultimately show "take (length sub) (b # bs) \<noteq> sub
            \<and> (\<forall>i\<le>length bs. take (length sub) (drop i bs) \<noteq> sub)" by simp
  next
    assume a: "take (length sub) (b # bs) \<noteq> sub
            \<and> (\<forall>i\<le>length bs. take (length sub) (drop i bs) \<noteq> sub)"
    show "\<forall>i\<le>length (b # bs). take (length sub) (drop i (b # bs)) \<noteq> sub"
    proof (intro allI impI)
      fix i assume "i \<le> length (b # bs)"
      then show "take (length sub) (drop i (b # bs)) \<noteq> sub"
        using a by (cases i) auto
    qed
  qed
  with Cons show ?case by simp
qed

lemma find_bytes_Some_iff:
  "find_bytes sub xs = Some i \<longleftrightarrow>
     i \<le> length xs \<and> take (length sub) (drop i xs) = sub
     \<and> (\<forall>j<i. take (length sub) (drop j xs) \<noteq> sub)"
proof (induction xs arbitrary: i)
  case Nil
  show ?case by auto
next
  case (Cons b bs)
  show ?case
  proof (cases "take (length sub) (b # bs) = sub")
    case True
    have "i = 0" if "\<forall>j<i. take (length sub) (drop j (b # bs)) \<noteq> sub"
    proof (rule ccontr)
      assume "i \<noteq> 0"
      then have "0 < i" by simp
      with that have "take (length sub) (drop 0 (b # bs)) \<noteq> sub" by blast
      with True show False by simp
    qed
    with True show ?thesis by auto
  next
    case False
    show ?thesis
    proof (cases i)
      case 0
      with False show ?thesis by simp
    next
      case (Suc k)
      have "(\<forall>j<Suc k. take (length sub) (drop j (b # bs)) \<noteq> sub)
            \<longleftrightarrow> (\<forall>j<k. take (length sub) (drop j bs) \<noteq> sub)"
      proof
        assume a: "\<forall>j<Suc k. take (length sub) (drop j (b # bs)) \<noteq> sub"
        show "\<forall>j<k. take (length sub) (drop j bs) \<noteq> sub"
        proof (intro allI impI)
          fix j assume "j < k"
          then show "take (length sub) (drop j bs) \<noteq> sub"
            using a [rule_format, of "Suc j"] by simp
        qed
      next
        assume a: "\<forall>j<k. take (length sub) (drop j bs) \<noteq> sub"
        show "\<forall>j<Suc k. take (length sub) (drop j (b # bs)) \<noteq> sub"
        proof (intro allI impI)
          fix j assume "j < Suc k"
          then show "take (length sub) (drop j (b # bs)) \<noteq> sub"
            using a False by (cases j) auto
        qed
      qed
      with False Suc Cons [of k] show ?thesis by simp
    qed
  qed
qed

lemma find_bytes_drop:
  assumes "d \<le> length xs" and "\<forall>j<d. take (length sub) (drop j xs) \<noteq> sub"
  shows "find_bytes sub (drop d xs) = map_option (\<lambda>i. i - d) (find_bytes sub xs)"
  using assms
proof (induction d arbitrary: xs)
  case 0
  then show ?case by (simp add: option.map_ident)
next
  case (Suc d)
  then obtain x xs' where xs: "xs = x # xs'" by (cases xs) auto
  have no0: "take (length sub) (x # xs') \<noteq> sub"
    using Suc.prems(2) [rule_format, of 0] by (simp add: xs)
  have rest: "\<forall>j<d. take (length sub) (drop j xs') \<noteq> sub"
  proof (intro allI impI)
    fix j assume "j < d"
    then show "take (length sub) (drop j xs') \<noteq> sub"
      using Suc.prems(2) [rule_format, of "Suc j"] by (simp add: xs)
  qed
  have "find_bytes sub (drop d xs') = map_option (\<lambda>i. i - d) (find_bytes sub xs')"
    using Suc.prems(1) rest by (intro Suc.IH) (simp_all add: xs)
  then show ?case
    using no0 by (simp add: xs option.map_comp comp_def)
qed

lemma MAGIC_WORD_unbordered: "1 \<le> k \<Longrightarrow> k < 8 \<Longrightarrow> MAGIC_WORD ! k \<noteq> MAGIC_WORD ! 0"
proof -
  assume "1 \<le> k" "k < 8"
  then have "k \<in> {1, 2, 3, 4, 5, 6, 7}" by auto
  then show ?thesis by (elim insertE emptyE) (simp_all add: MAGIC_WORD_def)
qed

lemma find_bytes_noise_frame:
  assumes "marker_free n" and "take 8 f = MAGIC_WORD"
  shows "find_bytes MAGIC_WORD (n @ f) = Some (length n)"
proof -
  have no: "take 8 (drop i n) \<noteq> MAGIC_WORD" if "i \<le> length n" for i
    using assms(1) that by (simp add: marker_free_def find_bytes_None_iff)
  have f0: "f ! 0 = MAGIC_WORD ! 0" and lf: "8 \<le> length f"
  proof -
    have "length (take 8 f) = 8" using assms(2) by simp
    then show "8 \<le> length f" by simp
    then have "f ! 0 = take 8 f ! 0" by simp
    then show "f ! 0 = MAGIC_WORD ! 0" using assms(2) by simp
  qed
  have "take 8 (drop j (n @ f)) \<noteq> MAGIC_WORD" if "j < length n" for j
  proof
    assume eq: "take 8 (drop j (n @ f)) = MAGIC_WORD"
    define r where "r = drop j n"
    have lr: "1 \<le> length r" using that by (simp add: r_def)
    have dj: "drop j (n @ f) = r @ f" using that by (simp add: r_def)
    from eq have eq2: "take 8 (r @ f) = MAGIC_WORD" by (simp only: dj)
    show False
    proof (cases "8 \<le> length r")
      case True
      then have "take 8 (r @ f) = take 8 r" by simp
      with eq2 no [of j] that show False by (simp add: r_def)
    next
      case False
      then have k: "length r < 8" by simp
      have "MAGIC_WORD ! length r = take 8 (r @ f) ! length r"
        by (simp only: eq2)
      also have "\<dots> = (r @ f) ! length r" using k by (intro nth_take) simp
      also have "\<dots> = f ! 0" by (simp add: nth_append)
      finally have "MAGIC_WORD ! length r = MAGIC_WORD ! 0" using f0 by simp
      with MAGIC_WORD_unbordered [OF lr k] show False by simp
    qed
  qed
  moreover have "take 8 (drop (length n) (n @ f)) = MAGIC_WORD" using assms(2) by simp
  ultimately show ?thesis by (simp add: find_bytes_Some_iff)
qed

lemma unpack_u32_append:
  "off + 4 \<le> length xs \<Longrightarrow> unpack_u32 (xs @ ys) off = unpack_u32 xs off"
  by (simp add: unpack_u32_def)

lemma parse_packet_total:
  "36 \<le> length data \<Longrightarrow> \<exists>objs. parse_packet clock data header_len = Inr objs"
  by (auto simp: parse_packet_def unpack_u32_def split: prod.splits)


section \<open>Frame synchronisation\<close>

lemma valid_frame_take8: "valid_frame f \<Longrightarrow> take 8 (f @ rest) = MAGIC_WORD"
  by (simp add: valid_frame_def)

lemma process_buffer_no_marker:
  "find_bytes MAGIC_WORD (buffer c) = None \<Longrightarrow> process_buffer clock c = (c, [], None)"
  by (subst process_buffer.simps) simp

lemma process_buffer_old_no_marker:
  "find_bytes MAGIC_WORD (buffer_old c) = None \<Longrightarrow>
   process_buffer_old clock c =
     ((if length (buffer_old c) > 2048
       then c\<lparr>buffer_old := drop (length (buffer_old c) - 16) (buffer_old c)\<rparr> else c), [])"
  by (subst process_buffer_old.simps) simp

lemma process_buffer_frame:
  assumes "marker_free n" and "valid_frame f" and "buffer c = n @ f @ rest"
    and "parse_packet clock f (le_uint (take 4 (drop 8 f))) = Inr objs"
  shows "process_buffer clock c =
           (case process_buffer (later (length objs) clock)
                   (c\<lparr>buffer := rest, data_q := enqueue_new (data_q c) objs\<rparr>) of
              (c3, packets, e) \<Rightarrow> (c3, f # packets, e))"
proof -
  have fnd: "find_bytes MAGIC_WORD (n @ f @ rest) = Some (length n)"
    using find_bytes_noise_frame [OF assms(1) valid_frame_take8 [OF assms(2)], of rest]
    by simp
  have len: "40 \<le> length f" using assms(2) by (simp add: valid_frame_def)
  have u8: "unpack_u32 (f @ rest) 8 = Inr (le_uint (take 4 (drop 8 f)))"
    using len by (simp add: unpack_u32_def)
  have u12: "unpack_u32 (f @ rest) 12 = Inr (length f)"
    using len assms(2) by (simp add: unpack_u32_append valid_frame_def)
  show ?thesis
    by (subst process_buffer.simps) (simp add: fnd assms(3,4) u8 u12)
qed

lemma process_buffer_old_frame:
  assumes "marker_free n" and "valid_frame f" and "buffer_old c = n @ f @ rest"
  shows "process_buffer_old clock c =
           (case process_buffer_old (later (length (parse_packet_old clock f)) clock)
                   (c\<lparr>buffer_old := rest,
                      data_q_old := enqueue_old (data_q_old c) (parse_packet_old clock f)\<rparr>) of
              (c3, packets) \<Rightarrow> (c3, f # packets))"
proof -
  have fnd: "find_bytes MAGIC_WORD (n @ f @ rest) = Some (length n)"
    using find_bytes_noise_frame [OF assms(1) valid_frame_take8 [OF assms(2)], of rest]
    by simp
  have len: "40 \<le> length f" "length f \<le> 65536" using assms(2) by (simp_all add: valid_frame_def)
  have u12: "unpack_u32 (f @ rest) 12 = Inr (length f)"
    using len assms(2) by (simp add: unpack_u32_append valid_frame_def)
  have ne: "f \<noteq> []" using len by auto
  show ?thesis
    using len ne by (subst process_buffer_old.simps) (simp add: fnd assms(3) u12 Let_def)
qed

lemma sync_new:
  assumes "\<forall>(n, f)\<in>set nfs. marker_free n \<and> valid_frame f" and "marker_free t"
    and "buffer c = stream_of nfs t"
  shows "snd (process_buffer clock c) = (map snd nfs, None)"
  using assms
proof (induction nfs arbitrary: c clock)
  case Nil
  then show ?case by (simp add: process_buffer_no_marker marker_free_def)
next
  case (Cons nf nfs)
  obtain n f where nf: "nf = (n, f)" by (cases nf)
  from Cons.prems nf have mf: "marker_free n" and vf: "valid_frame f" by auto
  from vf have "36 \<le> length f" by (simp add: valid_frame_def)
  then obtain objs where objs: "parse_packet clock f (le_uint (take 4 (drop 8 f))) = Inr objs"
    using parse_packet_total by blast
  define c' where "c' = c\<lparr>buffer := stream_of nfs t, data_q := enqueue_new (data_q c) objs\<rparr>"
  have b: "buffer c = n @ f @ stream_of nfs t" using Cons.prems(3) nf by simp
  have ih: "snd (process_buffer (later (length objs) clock) c') = (map snd nfs, None)"
    using Cons.prems(1,2) by (intro Cons.IH) (simp_all add: c'_def)
  show ?case
    using process_buffer_frame [OF mf vf b objs] ih nf
    by (simp add: c'_def split_beta)
qed

lemma sync_old:
  assumes "\<forall>(n, f)\<in>set nfs. marker_free n \<and> valid_frame f" and "marker_free t"
    and "buffer_old c = stream_of nfs t"
  shows "snd (process_buffer_old clock c) = map snd nfs"
  using assms
proof (induction nfs arbitrary: c clock)
  case Nil
  then show ?case by (simp add: process_buffer_old_no_marker marker_free_def)
next
  case (Cons nf nfs)
  obtain n f where nf: "nf = (n, f)" by (cases nf)
  from Cons.prems nf have mf: "marker_free n" and vf: "valid_frame f" by auto
  define c' where "c' = c\<lparr>buffer_old := stream_of nfs t,
                      data_q_old := enqueue_old (data_q_old c) (parse_packet_old clock f)\<rparr>"
  have b: "buffer_old c = n @ f @ stream_of nfs t" using Cons.prems(3) nf by simp
  have ih: "snd (process_buffer_old (later (length (parse_packet_old clock f)) clock) c')
            = map snd nfs"
    using Cons.prems(1,2) by (intro Cons.IH) (simp_all add: c'_def)
  show ?case
    using process_buffer_old_frame [OF mf vf b, of clock] ih nf
    by (simp add: c'_def split_beta)
qed

text \<open>Claim C3, as stated, fails when the noise itself holds the marker. Sixteen bytes of
  noise that start with the marker and declare a total length of 30, followed by a valid
  frame of 40 bytes: both collectors slice off the first 30 bytes of the stream, which
  are no valid frame, and with them the head of the frame that follows, which is never
  extracted; the new collector's decoder raises on the 30 bytes.\<close>

theorem frame_sync_recovers_frames_counterexample:
  "valid_frame example_small_frame
   \<and> \<not> valid_frame (take 30 (example_noise @ example_small_frame))
   \<and> snd (process_buffer (\<lambda>i. 0)
            (example_collector\<lparr>buffer := example_noise @ example_small_frame\<rparr>))
       = ([take 30 (example_noise @ example_small_frame)], Some StructError)
   \<and> snd (process_buffer_old (\<lambda>i. 0)
            (example_collector_old\<lparr>buffer_old := example_noise @ example_small_frame\<rparr>))
       = [take 30 (example_noise @ example_small_frame)]"
proof -
  have 1: "valid_frame example_small_frame"
    by (simp add: valid_frame_def example_small_frame_def MAGIC_WORD_def unpack_u32_def)
  have 2: "\<not> valid_frame (take 30 (example_noise @ example_small_frame))"
    by (simp add: valid_frame_def example_noise_def example_small_frame_def)
  have 3: "snd (process_buffer (\<lambda>i. 0)
            (example_collector\<lparr>buffer := example_noise @ example_small_frame\<rparr>))
       = ([take 30 (example_noise @ example_small_frame)], Some StructError)"
    by (simp add: process_buffer.simps example_collector_def example_noise_def
          example_small_frame_def MAGIC_WORD_def unpack_u32_def parse_packet_def)
  have 4: "snd (process_buffer_old (\<lambda>i. 0)
            (example_collector_old\<lparr>buffer_old := example_noise @ example_small_frame\<rparr>))
       = [take 30 (example_noise @ example_small_frame)]"
    by (simp add: process_buffer_old.simps example_collector_old_def example_noise_def
          example_small_frame_def MAGIC_WORD_def unpack_u32_def parse_packet_old_def
          enqueue_old_def Let_def)
  from 1 2 3 4 show ?thesis by blast
qed

text \<open>
  Claim C3, amended. For a stream of \<open>k\<close> valid frames, each preceded by noise in which the
  marker does not occur, and followed by such noise, one pass of \<^verbatim>\<open>_process_buffer\<close> over
  the whole stream slices off exactly the \<open>k\<close> frames, byte for byte and in order; this
  holds for the collector of \<^verbatim>\<open>NEW FILES/collecter.py\<close>, which also raises nothing, and
  for that of \<^verbatim>\<open>OLD FILES/collector.py\<close>.
\<close>

theorem frame_sync_recovers_frames:
  assumes "\<forall>(n, f)\<in>set nfs. marker_free n \<and> valid_frame f" and "marker_free t"
  shows "snd (process_buffer clock (c\<lparr>buffer := stream_of nfs t\<rparr>)) = (map snd nfs, None)
       \<and> snd (process_buffer_old clock (co\<lparr>buffer_old := stream_of nfs t\<rparr>)) = map snd nfs"
  using sync_new [OF assms, where c = "c\<lparr>buffer := stream_of nfs t\<rparr>" and clock = clock]
        sync_old [OF assms, where c = "co\<lparr>buffer_old := stream_of nfs t\<rparr>" and clock = clock]
  by simp

theorem frame_sync_recovers_frames_witness:
  "marker_free [9, 9] \<and> valid_frame example_frame \<and> marker_free [7, 7, 7]
   \<and> snd (process_buffer (\<lambda>i. 0)
            (example_collector\<lparr>buffer := [9, 9] @ example_frame @ [7, 7, 7]\<rparr>))
       = ([example_frame], None)
   \<and> snd (process_buffer_old (\<lambda>i. 0)
            (example_collector_old\<lparr>buffer_old := [9, 9] @ example_frame @ [7, 7, 7]\<rparr>))
       = [example_frame]"
proof -
  have h1: "marker_free [9, 9]" by (simp add: marker_free_def MAGIC_WORD_def)
  have h2: "valid_frame example_frame"
    by (simp add: valid_frame_def example_frame_def MAGIC_WORD_def unpack_u32_def)
  have h3: "marker_free [7, 7, 7]" by (simp add: marker_free_def MAGIC_WORD_def)
  have h: "\<forall>(n, f)\<in>set [([9, 9], example_frame)]. marker_free n \<and> valid_frame f"
    using h1 h2 by simp
  show ?thesis
    using frame_sync_recovers_frames [OF h h3, of "\<lambda>i. 0" example_collector example_collector_old]
          h1 h2 h3
    by simp
qed

lemma marker_free_short: "length p < 8 \<Longrightarrow> marker_free p"
proof -
  assume l: "length p < 8"
  have "take 8 (drop i p) \<noteq> MAGIC_WORD" for i
  proof
    assume "take 8 (drop i p) = MAGIC_WORD"
    then have "length (take 8 (drop i p)) = 8" by simp
    with l show False by simp
  qed
  then show ?thesis by (simp add: marker_free_def find_bytes_None_iff)
qed

lemma process_buffer_prefix:
  assumes "valid_frame f" and "buffer c @ s = f" and "s \<noteq> []"
  shows "process_buffer clock c = (c, [], None)"
proof (cases "length (buffer c) < 8")
  case True
  then show ?thesis
    using marker_free_short [of "buffer c"] by (simp add: process_buffer_no_marker marker_free_def)
next
  case False
  then have lp: "8 \<le> length (buffer c)" by simp
  have f: "f = buffer c @ s" using assms(2) by simp
  have "take 8 (buffer c) = MAGIC_WORD"
    using assms(1) lp by (simp add: valid_frame_def f)
  then have fnd: "find_bytes MAGIC_WORD (buffer c) = Some 0" by (simp add: find_bytes_Some_iff)
  have short: "length (buffer c) < length f" using assms(3) by (simp add: f)
  consider "length (buffer c) < 12" | "12 \<le> length (buffer c)" "length (buffer c) < 16"
    | "16 \<le> length (buffer c)" by linarith
  then show ?thesis
  proof cases
    case 1
    then have "unpack_u32 (buffer c) 8 = Inl StructError" by (simp add: unpack_u32_def)
    then show ?thesis by (subst process_buffer.simps) (simp add: fnd)
  next
    case 2
    then have "unpack_u32 (buffer c) 8 = Inr (le_uint (take 4 (drop 8 (buffer c))))"
      and "unpack_u32 (buffer c) 12 = Inl StructError" by (simp_all add: unpack_u32_def)
    then show ?thesis by (subst process_buffer.simps) (simp add: fnd)
  next
    case 3
    then have "unpack_u32 (buffer c) 8 = Inr (le_uint (take 4 (drop 8 (buffer c))))"
      by (simp add: unpack_u32_def)
    moreover have "unpack_u32 (buffer c) 12 = Inr (length f)"
      using assms(1) 3 unpack_u32_append [of 12 "buffer c" s] by (simp add: valid_frame_def f)
    ultimately show ?thesis using short by (subst process_buffer.simps) (simp add: fnd)
  qed
qed

lemma read_chunk_prefix:
  assumes "valid_frame f" and "buffer c @ snd tc @ s = f" and "s \<noteq> []"
  shows "read_chunk tc c = c\<lparr>buffer := buffer c @ snd tc\<rparr>"
  using process_buffer_prefix [OF assms(1), of "c\<lparr>buffer := buffer c @ snd tc\<rparr>" s "fst tc"] assms(2,3)
  by (simp add: read_chunk_def)

lemma read_chunks_accumulate:
  assumes "valid_frame f" and "\<forall>tc\<in>set tcs. snd tc \<noteq> []" and "tcs \<noteq> []"
    and "buffer c @ concat (map snd tcs) = f"
  shows "read_chunks tcs c = read_chunk (fst (last tcs), concat (map snd tcs)) c"
  using assms(2-)
proof (induction tcs arbitrary: c)
  case Nil
  then show ?case by simp
next
  case (Cons tc tcs)
  show ?case
  proof (cases tcs)
    case Nil
    then show ?thesis by (simp add: read_chunks_def read_chunk_def)
  next
    case (Cons tc2 rest)
    define s where "s = concat (map snd tcs)"
    have sne: "s \<noteq> []" using Cons.prems(1) Cons by (simp add: s_def)
    have b: "buffer c @ snd tc @ s = f" using Cons.prems(3) by (simp add: s_def)
    define c' where "c' = c\<lparr>buffer := buffer c @ snd tc\<rparr>"
    have step: "read_chunk tc c = c'"
      unfolding c'_def by (rule read_chunk_prefix [OF assms(1) b sne])
    have "read_chunks tcs c' = read_chunk (fst (last tcs), concat (map snd tcs)) c'"
      using Cons.prems Cons b by (intro Cons.IH) (simp_all add: c'_def s_def)
    then show ?thesis
      using step Cons by (simp add: read_chunks_def read_chunk_def c'_def)
  qed
qed

lemma read_chunk_whole_frame:
  assumes "valid_frame f" and "buffer c = []"
    and "parse_packet clock f (le_uint (take 4 (drop 8 f))) = Inr objs"
  shows "read_chunk (clock, f) c = c\<lparr>data_q := enqueue_new (data_q c) objs\<rparr>"
proof -
  define c0 where "c0 = c\<lparr>buffer := buffer c @ f\<rparr>"
  have m: "marker_free []" by (simp add: marker_free_def)
  have b: "buffer c0 = [] @ f @ []" by (simp add: c0_def assms(2))
  have e: "c0\<lparr>buffer := [], data_q := enqueue_new (data_q c0) objs\<rparr>
           = c\<lparr>data_q := enqueue_new (data_q c) objs\<rparr>"
    using assms(2) by (simp add: c0_def)
  have "process_buffer (later (length objs) clock) (c\<lparr>data_q := enqueue_new (data_q c) objs\<rparr>)
        = (c\<lparr>data_q := enqueue_new (data_q c) objs\<rparr>, [], None)"
    using assms(2) by (simp add: process_buffer_no_marker)
  then show ?thesis
    using process_buffer_frame [OF m assms(1) b assms(3)]
    by (simp add: read_chunk_def c0_def [symmetric] e)
qed

lemma make_objects_fields:
  "map decoded_fields (make_objects clock points side_info)
   = map decoded_fields (make_objects clock' points side_info)"
  by (simp add: make_objects_def decoded_fields_def case_prod_unfold)

lemma parse_packet_fields:
  assumes "parse_packet clock data header_len = Inr objs"
    and "parse_packet clock' data header_len = Inr objs'"
  shows "map decoded_fields objs = map decoded_fields objs'"
  using assms make_objects_fields [of clock _ _ clock']
  by (auto simp: parse_packet_def split: sum.splits prod.splits)

lemma push_new_fields:
  assumes "maxsize q = maxsize q'" and "map g (items q) = map g (items q')" and "g x = g x'"
  shows "maxsize (push_new q x) = maxsize (push_new q' x')
       \<and> map g (items (push_new q x)) = map g (items (push_new q' x'))"
proof -
  have "length (items q) = length (items q')"
    using assms(2) by (metis length_map)
  then have "full q = full q'" using assms(1) by (simp add: full_def qsize_def)
  then show ?thesis using assms by (simp add: push_new_def put_nowait_def)
qed

lemma enqueue_new_fields:
  assumes "map g objs = map g objs'"
    and "maxsize q = maxsize q'" and "map g (items q) = map g (items q')"
  shows "map g (items (enqueue_new q objs)) = map g (items (enqueue_new q' objs'))"
proof -
  have "length objs = length objs'" using assms(1) by (metis length_map)
  then show ?thesis
    using assms unfolding enqueue_new_def
  proof (induction objs objs' arbitrary: q q' rule: list_induct2)
    case Nil
    then show ?case by simp
  next
    case (Cons x xs y ys)
    have "maxsize (push_new q x) = maxsize (push_new q' y)
       \<and> map g (items (push_new q x)) = map g (items (push_new q' y))"
      using Cons.prems by (intro push_new_fields) simp_all
    then show ?case using Cons.prems(1) Cons.IH by simp
  qed
qed

text \<open>Claim C7, as stated, fails for the timestamp, which is no function of the bytes: a
  frame that arrives whole is decoded when its one chunk is read, a frame that arrives in
  three chunks when the third is read, and each object takes the reading of the clock at
  that time.\<close>

theorem chunked_frame_same_detections_counterexample:
  "concat (map snd example_chunks) = example_frame
   \<and> map mo_timestamp (items (data_q (read_chunks example_chunks example_collector))) = [3]
   \<and> map mo_timestamp
         (items (data_q (read_chunk (\<lambda>i. 1, example_frame) example_collector))) = [1]
   \<and> read_chunks example_chunks example_collector
       \<noteq> read_chunk (\<lambda>i. 1, example_frame) example_collector"
proof -
  have 1: "concat (map snd example_chunks) = example_frame"
    by (simp add: example_chunks_def example_frame_def)
  have 2: "map mo_timestamp (items (data_q (read_chunks example_chunks example_collector)))
           = [3]"
    by (simp add: read_chunks_def read_chunk_def example_chunks_def process_buffer.simps
          example_collector_def example_frame_def MAGIC_WORD_def unpack_u32_def
          parse_packet_def tlv_body_def TLV_HEADER_SIZE_def unpack_f32_def make_objects_def
          enumerate_eq_zip enqueue_new_def push_new_def put_nowait_def full_def qsize_def)
  have 3: "map mo_timestamp
         (items (data_q (read_chunk (\<lambda>i. 1, example_frame) example_collector))) = [1]"
    by (simp add: read_chunk_def process_buffer.simps
          example_collector_def example_frame_def MAGIC_WORD_def unpack_u32_def
          parse_packet_def tlv_body_def TLV_HEADER_SIZE_def unpack_f32_def make_objects_def
          enumerate_eq_zip enqueue_new_def push_new_def put_nowait_def full_def qsize_def)
  from 2 3 have 4: "read_chunks example_chunks example_collector
       \<noteq> read_chunk (\<lambda>i. 1, example_frame) example_collector"
    by auto
  from 1 2 3 4 show ?thesis by blast
qed

text \<open>
  Claim C7, amended. A valid frame that reaches a collector with an empty buffer in any
  number of non-empty chunks, each followed by \<^verbatim>\<open>_process_buffer\<close>, yields the same
  sequence of detections as the whole frame consumed in a single chunk, with identical
  x, y, z, velocity, range and snr, and leaves the same buffer. The timestamp of a
  detection is the reading of the clock when it is built: the two runs agree on the
  timestamps too, and so on the whole state of the collector, when the single chunk is
  read with the clock of the chunk that completes the frame.
\<close>

theorem chunked_frame_same_detections:
  assumes "valid_frame f" and "buffer c = []"
    and "\<forall>tc\<in>set tcs. snd tc \<noteq> []" and "tcs \<noteq> []"
    and "concat (map snd tcs) = f"
  shows "map decoded_fields (items (data_q (read_chunks tcs c)))
         = map decoded_fields (items (data_q (read_chunk (clock, f) c)))
       \<and> buffer (read_chunks tcs c) = buffer (read_chunk (clock, f) c)
       \<and> read_chunks tcs c = read_chunk (fst (last tcs), f) c
       \<and> (\<exists>objs. parse_packet (fst (last tcs)) f (le_uint (take 4 (drop 8 f))) = Inr objs
              \<and> read_chunks tcs c = c\<lparr>data_q := enqueue_new (data_q c) objs\<rparr>)"
proof -
  have 1: "read_chunks tcs c = read_chunk (fst (last tcs), f) c"
    using read_chunks_accumulate [OF assms(1,3,4), of c] assms(2,5) by simp
  from assms(1) have len: "36 \<le> length f" by (simp add: valid_frame_def)
  then obtain objs where o: "parse_packet (fst (last tcs)) f (le_uint (take 4 (drop 8 f))) = Inr objs"
    using parse_packet_total by blast
  from len obtain objs' where o': "parse_packet clock f (le_uint (take 4 (drop 8 f))) = Inr objs'"
    using parse_packet_total by blast
  have 2: "read_chunks tcs c = c\<lparr>data_q := enqueue_new (data_q c) objs\<rparr>"
    using 1 read_chunk_whole_frame [OF assms(1,2) o] by simp
  have 3: "read_chunk (clock, f) c = c\<lparr>data_q := enqueue_new (data_q c) objs'\<rparr>"
    by (rule read_chunk_whole_frame [OF assms(1,2) o'])
  have 4: "map decoded_fields (items (enqueue_new (data_q c) objs))
        = map decoded_fields (items (enqueue_new (data_q c) objs'))"
    by (intro enqueue_new_fields parse_packet_fields [OF o o']) simp_all
  have 5: "map decoded_fields (items (data_q (read_chunks tcs c)))
         = map decoded_fields (items (data_q (read_chunk (clock, f) c)))"
    unfolding 2 3 using 4 by simp
  have 6: "buffer (read_chunks tcs c) = buffer (read_chunk (clock, f) c)"
    unfolding 2 3 by simp
  from 1 2 5 6 o show ?thesis by blast
qed

theorem chunked_frame_same_detections_witness:
  "valid_frame example_frame \<and> buffer example_collector = []
   \<and> concat (map snd example_chunks) = example_frame
   \<and> map decoded_fields (items (data_q (read_chunks example_chunks example_collector)))
       = map decoded_fields
           (items (data_q (read_chunk (\<lambda>i. 1, example_frame) example_collector)))
   \<and> buffer (read_chunks example_chunks example_collector)
       = buffer (read_chunk (\<lambda>i. 1, example_frame) example_collector)
   \<and> read_chunks example_chunks example_collector
       = read_chunk (\<lambda>i. 3, example_frame) example_collector
   \<and> items (data_q (read_chunks example_chunks example_collector))
       = [\<lparr>mo_x = F32 1065353216, mo_y = F32 1073741824, mo_z = F32 1077936128,
           mo_velocity = F32 1056964608,
           mo_rng = SqrtPow (F32 1065353216) (F32 1073741824) (F32 1077936128),
           mo_snr = IntZero, mo_timestamp = 3\<rparr>]"
proof -
  have h1: "valid_frame example_frame"
    by (simp add: valid_frame_def example_frame_def MAGIC_WORD_def unpack_u32_def)
  have h2: "buffer example_collector = []" by (simp add: example_collector_def)
  have h3: "\<forall>tc\<in>set example_chunks. snd tc \<noteq> []"
    by (simp add: example_chunks_def example_frame_def)
  have h4: "example_chunks \<noteq> []" by (simp add: example_chunks_def)
  have h5: "concat (map snd example_chunks) = example_frame"
    by (simp add: example_chunks_def example_frame_def)
  have l: "fst (last example_chunks) = (\<lambda>i. 3)" by (simp add: example_chunks_def)
  have p: "parse_packet (\<lambda>i. 3) example_frame (le_uint (take 4 (drop 8 example_frame)))
           = Inr [\<lparr>mo_x = F32 1065353216, mo_y = F32 1073741824, mo_z = F32 1077936128,
                   mo_velocity = F32 1056964608,
                   mo_rng = SqrtPow (F32 1065353216) (F32 1073741824) (F32 1077936128),
                   mo_snr = IntZero, mo_timestamp = 3\<rparr>]"
    by (simp add: parse_packet_def example_frame_def unpack_u32_def tlv_body_def
          TLV_HEADER_SIZE_def unpack_f32_def make_objects_def enumerate_eq_zip)
  have q: "items (enqueue_new (data_q example_collector) [obj]) = [obj]" for obj
    by (simp add: enqueue_new_def push_new_def put_nowait_def full_def qsize_def
          example_collector_def)
  note t = chunked_frame_same_detections [OF h1 h2 h3 h4 h5, of "\<lambda>i. 1", unfolded l]
  from t have a: "map decoded_fields (items (data_q (read_chunks example_chunks example_collector)))
       = map decoded_fields
           (items (data_q (read_chunk (\<lambda>i. 1, example_frame) example_collector)))"
    and a': "buffer (read_chunks example_chunks example_collector)
       = buffer (read_chunk (\<lambda>i. 1, example_frame) example_collector)"
    and a'': "read_chunks example_chunks example_collector
       = read_chunk (\<lambda>i. 3, example_frame) example_collector"
    by blast+
  from t obtain objs where
    "parse_packet (\<lambda>i. 3) example_frame (le_uint (take 4 (drop 8 example_frame))) = Inr objs"
    and "read_chunks example_chunks example_collector
         = example_collector\<lparr>data_q := enqueue_new (data_q example_collector) objs\<rparr>"
    by blast
  then have b: "items (data_q (read_chunks example_chunks example_collector))
       = [\<lparr>mo_x = F32 1065353216, mo_y = F32 1073741824, mo_z = F32 1077936128,
           mo_velocity = F32 1056964608,
           mo_rng = SqrtPow (F32 1065353216) (F32 1073741824) (F32 1077936128),
           mo_snr = IntZero, mo_timestamp = 3\<rparr>]"
    using p q by auto
  from h1 h2 h5 a a' a'' b show ?thesis by blast
qed

text \<open>Claim C1, as stated, fails in both collectors. With 40 bytes buffered whose header
  declares a total length of 20, below the header length of 40, the old collector does
  not drop the marker alone: it slices off 20 bytes as a packet. The new collector has no
  check of the declared length: on a declared length of 70000 it leaves the buffer as it
  is, waiting for the missing bytes, and on a declared length of 0 it hands the empty
  packet to the decoder, which raises, with the marker still at the head of the
  buffer.\<close>

theorem old_rejects_bad_length_counterexample:
  "unpack_u32 example_short_length 8 = Inr 40
   \<and> unpack_u32 example_short_length 12 = Inr 20
   \<and> process_buffer_old (\<lambda>i. 0) (example_collector_old\<lparr>buffer_old := example_short_length\<rparr>)
       = (example_collector_old\<lparr>buffer_old := drop 20 example_short_length\<rparr>,
          [take 20 example_short_length])
   \<and> unpack_u32 example_long_length 12 = Inr 70000
   \<and> process_buffer (\<lambda>i. 0) (example_collector\<lparr>buffer := example_long_length\<rparr>)
       = (example_collector\<lparr>buffer := example_long_length\<rparr>, [], None)
   \<and> unpack_u32 example_zero_length 12 = Inr 0
   \<and> process_buffer (\<lambda>i. 0) (example_collector\<lparr>buffer := example_zero_length\<rparr>)
       = (example_collector\<lparr>buffer := example_zero_length\<rparr>, [[]], Some StructError)"
proof -
  have 1: "unpack_u32 example_short_length 8 = Inr 40"
    and 2: "unpack_u32 example_short_length 12 = Inr 20"
    by (simp_all add: unpack_u32_def example_short_length_def)
  have 3: "process_buffer_old (\<lambda>i. 0) (example_collector_old\<lparr>buffer_old := example_short_length\<rparr>)
       = (example_collector_old\<lparr>buffer_old := drop 20 example_short_length\<rparr>,
          [take 20 example_short_length])"
    by (simp add: process_buffer_old.simps example_collector_old_def
          example_short_length_def MAGIC_WORD_def unpack_u32_def parse_packet_old_def
          enqueue_old_def Let_def)
  have 4: "unpack_u32 example_long_length 12 = Inr 70000"
    by (simp add: unpack_u32_def example_long_length_def)
  have 5: "process_buffer (\<lambda>i. 0) (example_collector\<lparr>buffer := example_long_length\<rparr>)
       = (example_collector\<lparr>buffer := example_long_length\<rparr>, [], None)"
    by (simp add: process_buffer.simps example_collector_def example_long_length_def
          MAGIC_WORD_def unpack_u32_def)
  have 6: "unpack_u32 example_zero_length 12 = Inr 0"
    by (simp add: unpack_u32_def example_zero_length_def)
  have 7: "process_buffer (\<lambda>i. 0) (example_collector\<lparr>buffer := example_zero_length\<rparr>)
       = (example_collector\<lparr>buffer := example_zero_length\<rparr>, [[]], Some StructError)"
    by (simp add: process_buffer.simps example_collector_def example_zero_length_def
          MAGIC_WORD_def unpack_u32_def parse_packet_def)
  from 1 2 3 4 5 6 7 show ?thesis by blast
qed

text \<open>
  Claim C1, amended. In the collector of \<^verbatim>\<open>OLD FILES/collector.py\<close>, when the marker is
  found, at least 40 bytes are buffered from it on and the total length declared at
  offset 12 is 0 or more than 65536, \<^verbatim>\<open>_process_buffer\<close> drops the bytes before the marker
  and the 8 bytes of the marker and goes on scanning what follows in the same call; the
  call always returns.
\<close>

theorem old_rejects_bad_length:
  assumes "find_bytes MAGIC_WORD (buffer_old c) = Some idx"
    and "40 \<le> length (buffer_old c) - idx"
    and "unpack_u32 (drop idx (buffer_old c)) 12 = Inr total_packet_len"
    and "total_packet_len = 0 \<or> 65536 < total_packet_len"
  shows "process_buffer_old clock c
         = process_buffer_old clock (c\<lparr>buffer_old := drop (idx + 8) (buffer_old c)\<rparr>)"
  using assms by (subst process_buffer_old.simps) (auto simp: Let_def add.commute)

theorem old_rejects_bad_length_witness:
  "find_bytes MAGIC_WORD (buffer_old (example_collector_old\<lparr>buffer_old := example_long_length\<rparr>))
     = Some 0
   \<and> 40 \<le> length (buffer_old (example_collector_old\<lparr>buffer_old := example_long_length\<rparr>)) - 0
   \<and> unpack_u32 (drop 0 (buffer_old (example_collector_old\<lparr>buffer_old := example_long_length\<rparr>))) 12
       = Inr 70000
   \<and> (65536 :: nat) < 70000
   \<and> process_buffer_old (\<lambda>i. 0) (example_collector_old\<lparr>buffer_old := example_long_length\<rparr>)
       = (example_collector_old\<lparr>buffer_old := drop 8 example_long_length\<rparr>, [])"
proof -
  define c where "c = example_collector_old\<lparr>buffer_old := example_long_length\<rparr>"
  have h1: "find_bytes MAGIC_WORD (buffer_old c) = Some 0"
    by (simp add: c_def example_long_length_def MAGIC_WORD_def)
  have h2: "40 \<le> length (buffer_old c) - 0"
    by (simp add: c_def example_long_length_def)
  have h3: "unpack_u32 (drop 0 (buffer_old c)) 12 = Inr 70000"
    by (simp add: c_def example_long_length_def unpack_u32_def)
  have h4: "(70000 :: nat) = 0 \<or> 65536 < (70000 :: nat)" by simp
  have r: "process_buffer_old (\<lambda>i. 0) (c\<lparr>buffer_old := drop (0 + 8) (buffer_old c)\<rparr>)
           = (example_collector_old\<lparr>buffer_old := drop 8 example_long_length\<rparr>, [])"
    by (simp add: process_buffer_old.simps c_def example_collector_old_def
          example_long_length_def MAGIC_WORD_def)
  show ?thesis
    using old_rejects_bad_length [OF h1 h2 h3 h4, of "\<lambda>i. 0"] h1 h2 h3 r
    by (simp add: c_def)
qed

text \<open>The buffer of the old collector is trimmed to its last 16 bytes whenever a pass
  finds no marker in more than 2048 bytes, so that it never ends a pass over marker-free
  bytes longer than 2048; the first marker of what arrives next, also one that straddles
  the two chunks, is found in the trimmed buffer where it is found in the untrimmed one.
  The new collector keeps every byte.\<close>

lemma old_buffer_bounded:
  assumes "find_bytes MAGIC_WORD (buffer_old c @ chunk) = None"
  shows "length (buffer_old (read_chunk_old (clock, chunk) c)) \<le> 2048"
  using assms by (auto simp: read_chunk_old_def process_buffer_old_no_marker)

lemma old_trim_keeps_marker:
  assumes "marker_free b" and "16 \<le> length b"
  shows "find_bytes MAGIC_WORD (drop (length b - 16) b @ chunk)
         = map_option (\<lambda>i. i - (length b - 16)) (find_bytes MAGIC_WORD (b @ chunk))"
proof -
  have "\<forall>j<length b - 16. take (length MAGIC_WORD) (drop j (b @ chunk)) \<noteq> MAGIC_WORD"
  proof (intro allI impI)
    fix j assume j: "j < length b - 16"
    then have e: "take 8 (drop j (b @ chunk)) = take 8 (drop j b)" by simp
    have n: "take 8 (drop j b) \<noteq> MAGIC_WORD"
      using assms(1) j by (simp add: marker_free_def find_bytes_None_iff)
    show "take (length MAGIC_WORD) (drop j (b @ chunk)) \<noteq> MAGIC_WORD"
      unfolding length_MAGIC_WORD e by (rule n)
  qed
  from find_bytes_drop [OF _ this]
  have "find_bytes MAGIC_WORD (drop (length b - 16) (b @ chunk))
        = map_option (\<lambda>i. i - (length b - 16)) (find_bytes MAGIC_WORD (b @ chunk))"
    by simp
  then show ?thesis using assms(2) by simp
qed

lemma new_buffer_grows:
  assumes "find_bytes MAGIC_WORD (buffer c @ chunk) = None"
  shows "buffer (read_chunk (clock, chunk) c) = buffer c @ chunk"
  using assms by (simp add: read_chunk_def process_buffer_no_marker)

lemma find_bytes_zeros: "find_bytes MAGIC_WORD (replicate k 0) = None"
  by (induction k) (simp_all add: MAGIC_WORD_def)

lemma read_chunks_old_zeros:
  "length (buffer_old (read_chunks_old [(\<lambda>i. 0, replicate 1500 0), (\<lambda>i. 1, replicate 1500 0)]
                         example_collector_old)) = 16"
  by (simp add: read_chunks_old_def read_chunk_old_def process_buffer_old_no_marker
        find_bytes_zeros replicate_add [symmetric] example_collector_old_def)

text \<open>
  Claim C2 fails in \<^verbatim>\<open>NEW FILES/collecter.py\<close>: its \<^verbatim>\<open>_process_buffer\<close> leaves the loop
  when no marker is found and never trims. After two chunks of 1500 zero bytes the
  buffer holds all 3000 of them.
\<close>

theorem new_buffer_never_trimmed:
  "length (buffer (read_chunks [(\<lambda>i. 0, replicate 1500 0), (\<lambda>i. 1, replicate 1500 0)]
                     example_collector)) = 3000"
  by (simp add: read_chunks_def read_chunk_def process_buffer_no_marker
        find_bytes_zeros replicate_add [symmetric] example_collector_def)

section \<open>The classifier\<close>

lemma label_cluster_fst:
  "fst (label_cluster ops d (df, info) cid)
   = loc_set_label df cid (classify ops d (select_cluster df cid))"
  by (simp add: label_cluster_def classify_def Let_def)

lemma loc_set_label_rows [simp]: "rows (loc_set_label df cid l) = rows df"
  and loc_set_label_cids [simp]: "cluster_id_col (loc_set_label df cid l) = cluster_id_col df"
  by (simp_all add: loc_set_label_def split: option.splits)

lemma select_cluster_loc_set [simp]:
  "select_cluster (loc_set_label df cid l) c = select_cluster df c"
  by (simp add: select_cluster_def split: option.splits)

lemma loc_set_label_nth:
  assumes "cluster_id_col df = Some cids" and "label_col df = Some ls"
    and "length cids = length ls" and "i < length ls"
  shows "\<exists>ls'. label_col (loc_set_label df cid l) = Some ls' \<and> length ls' = length ls
           \<and> ls' ! i = (if cids ! i = cid then l else ls ! i)"
  using assms by (simp add: loc_set_label_def)

lemma foldl_label_cluster:
  assumes "cluster_id_col df = Some cids" and "label_col df = Some ls"
    and "length cids = length ls" and "i < length ls" and "distinct cs"
  shows "\<exists>df' info' ls'. foldl (label_cluster ops d) (df, info) cs = (df', info')
           \<and> rows df' = rows df \<and> cluster_id_col df' = Some cids
           \<and> label_col df' = Some ls' \<and> length ls' = length ls
           \<and> ls' ! i = (if cids ! i \<in> set cs
                         then classify ops d (select_cluster df (cids ! i))
                         else ls ! i)"
  using assms
proof (induction cs arbitrary: df info ls)
  case Nil
  then show ?case by simp
next
  case (Cons c cs)
  define df1 where "df1 = fst (label_cluster ops d (df, info) c)"
  define info1 where "info1 = snd (label_cluster ops d (df, info) c)"
  have st: "label_cluster ops d (df, info) c = (df1, info1)" by (simp add: df1_def info1_def)
  have df1: "df1 = loc_set_label df c (classify ops d (select_cluster df c))"
    by (simp add: df1_def label_cluster_fst)
  from loc_set_label_nth [OF Cons.prems(1-4), of c "classify ops d (select_cluster df c)"]
  obtain ls1 where ls1: "label_col df1 = Some ls1" "length ls1 = length ls"
    "ls1 ! i = (if cids ! i = c then classify ops d (select_cluster df c) else ls ! i)"
    unfolding df1 by blast
  have c1: "cluster_id_col df1 = Some cids" using Cons.prems(1) by (simp add: df1)
  have "distinct cs" and cn: "c \<notin> set cs" using Cons.prems(5) by simp_all
  from Cons.IH [OF c1 ls1(1) _ _ \<open>distinct cs\<close>, of info1] ls1(2) Cons.prems(3,4)
  obtain df' info' ls' where r: "foldl (label_cluster ops d) (df1, info1) cs = (df', info')"
    "rows df' = rows df1" "cluster_id_col df' = Some cids" "label_col df' = Some ls'"
    "length ls' = length ls1"
    "ls' ! i = (if cids ! i \<in> set cs then classify ops d (select_cluster df1 (cids ! i))
                else ls1 ! i)"
    by auto
  have "ls' ! i = (if cids ! i \<in> set (c # cs)
                   then classify ops d (select_cluster df (cids ! i))
                   else ls ! i)"
    using r(6) ls1(3) cn by (auto simp: df1)
  then show ?case
    using r ls1(2) st by (simp add: df1)
qed

lemma set_unique [simp]: "set (unique xs) = set xs"
  and distinct_unique [simp]: "distinct (unique xs)"
  by (simp_all add: unique_def)

lemma is_human_cluster_iff:
  "is_human_cluster ops d cluster \<longleftrightarrow>
     min_points_human d \<le> int (length cluster)
     \<and> f_lt ops (min_human_height d)
          (f_sub ops (f_max ops (map c_z cluster)) (f_min ops (map c_z cluster)))
     \<and> f_lt ops (f_sub ops (f_max ops (map c_z cluster)) (f_min ops (map c_z cluster)))
          (max_human_height d)
     \<and> \<not> f_gt ops
           (f_hypot ops
              (f_sub ops (f_max ops (map c_x cluster)) (f_min ops (map c_x cluster)))
              (f_sub ops (f_max ops (map c_y cluster)) (f_min ops (map c_y cluster))))
           (max_human_width d)"
  by (auto simp: is_human_cluster_def Let_def)

lemma process_result:
  assumes "h r = df" and "rows df \<noteq> []"
    and "db (eps d) (min_samples d) (map (\<lambda>row. (c_x row, c_y row, c_z row)) (rows df)) = labels"
    and "length labels = length (rows df)"
    and "i < length (rows df)"
  shows "\<exists>df' info ls.
           process ops db d h r = Inr (h(r := df'), r, info)
           \<and> rows df' = rows df \<and> cluster_id_col df' = Some labels
           \<and> label_col df' = Some ls \<and> length ls = length (rows df)
           \<and> ls ! i =
               (if labels ! i = - 1 then Clutter
                else classify ops d (map fst (filter (\<lambda>(row, c). c = labels ! i)
                                                     (zip (rows df) labels))))"
proof -
  define df2 where
    "df2 = df\<lparr>cluster_id_col := Some labels,
              label_col := Some (replicate (length (rows df)) Clutter)\<rparr>"
  define cs where "cs = unique (filter (\<lambda>c. c \<noteq> - 1) labels)"
  note len = assms(4)
  have a: "cluster_id_col df2 = Some labels"
    and b: "label_col df2 = Some (replicate (length (rows df)) Clutter)"
    by (simp_all add: df2_def)
  have c: "length labels = length (replicate (length (rows df)) Clutter)" using len by simp
  have i: "i < length (replicate (length (rows df)) Clutter)" using assms(5) by simp
  have dc: "distinct cs" by (simp add: cs_def)
  from foldl_label_cluster [OF a b c i dc, of ops d "[]"]
  obtain df' info' ls' where r: "foldl (label_cluster ops d) (df2, []) cs = (df', info')"
    "rows df' = rows df2" "cluster_id_col df' = Some labels" "label_col df' = Some ls'"
    "length ls' = length (replicate (length (rows df)) Clutter)"
    "ls' ! i = (if labels ! i \<in> set cs then classify ops d (select_cluster df2 (labels ! i))
                else replicate (length (rows df)) Clutter ! i)"
    by blast
  have mem: "labels ! i \<in> set cs \<longleftrightarrow> labels ! i \<noteq> - 1"
    using assms(5) len by (auto simp: cs_def)
  have sel: "select_cluster df2 c = map fst (filter (\<lambda>(row, c'). c' = c) (zip (rows df) labels))"
    for c by (simp add: select_cluster_def df2_def)
  have p: "process ops db d h r = Inr (h(r := df'), r, info')"
    using assms(1-4) r(1)
    by (simp add: process_def Let_def df2_def [symmetric] cs_def [symmetric])
  have "ls' ! i = (if labels ! i = - 1 then Clutter
                   else classify ops d (map fst (filter (\<lambda>(row, c). c = labels ! i)
                                                        (zip (rows df) labels))))"
    using r(6) mem sel assms(5) by simp
  then have "process ops db d h r = Inr (h(r := df'), r, info')
           \<and> rows df' = rows df \<and> cluster_id_col df' = Some labels
           \<and> label_col df' = Some ls' \<and> length ls' = length (rows df)
           \<and> ls' ! i =
               (if labels ! i = - 1 then Clutter
                else classify ops d (map fst (filter (\<lambda>(row, c). c = labels ! i)
                                                     (zip (rows df) labels))))"
    using p r(2-5) by (simp add: df2_def)
  then show ?thesis by blast
qed

text \<open>
  Claim C4. \<^verbatim>\<open>process\<close> on a non-empty batch, with a clustering that labels every row:
  a row whose cluster is not noise is labelled Human if and only if its cluster has at
  least \<open>min_points_human\<close> rows, a z-extent (the float difference of the maximum and
  the minimum of z) that is above \<open>min_human_height\<close> and below \<open>max_human_height\<close> in
  the strict comparison of floats, and a horizontal spread (numpy's square root of the
  sum of the squares of the x-extent and the y-extent) that is not above
  \<open>max_human_width\<close>, which for floats other than NaN says that it is at most
  \<open>max_human_width\<close>; a row that is not labelled Human is labelled Moving when the
  mean that pandas computes of the absolute velocities of its cluster is above the
  movement threshold, and Static otherwise. Every quantity is the float that the
  library operations of the source compute, whatever their rounding.
\<close>

theorem classifier_labels:
  assumes "h r = df" and "rows df \<noteq> []"
    and "db (eps d) (min_samples d) (map (\<lambda>row. (c_x row, c_y row, c_z row)) (rows df)) = labels"
    and "length labels = length (rows df)"
    and "i < length (rows df)" and "labels ! i \<noteq> - 1"
    and "cluster = map fst (filter (\<lambda>(row, c). c = labels ! i) (zip (rows df) labels))"
  shows "\<exists>df' info ls.
           process ops db d h r = Inr (h(r := df'), r, info) \<and> label_col df' = Some ls
           \<and> (ls ! i = Human \<longleftrightarrow>
                 min_points_human d \<le> int (length cluster)
                 \<and> f_lt ops (min_human_height d)
                      (f_sub ops (f_max ops (map c_z cluster)) (f_min ops (map c_z cluster)))
                 \<and> f_lt ops
                      (f_sub ops (f_max ops (map c_z cluster)) (f_min ops (map c_z cluster)))
                      (max_human_height d)
                 \<and> \<not> f_gt ops
                       (f_hypot ops
                          (f_sub ops (f_max ops (map c_x cluster)) (f_min ops (map c_x cluster)))
                          (f_sub ops (f_max ops (map c_y cluster)) (f_min ops (map c_y cluster))))
                       (max_human_width d))
           \<and> (ls ! i \<noteq> Human \<longrightarrow>
                 ls ! i = (if f_gt ops
                                (f_mean ops (map (\<lambda>row. f_abs ops (c_velocity row)) cluster))
                                (movement_threshold d)
                           then Moving else Static))"
proof -
  from process_result [where h = h and r = r and db = db and d = d and ops = ops,
      OF assms(1-5)]
  obtain df' info ls where r: "process ops db d h r = Inr (h(r := df'), r, info)"
    "label_col df' = Some ls" "ls ! i = classify ops d cluster"
    using assms(6,7) by auto
  have "(ls ! i = Human \<longleftrightarrow>
                 min_points_human d \<le> int (length cluster)
                 \<and> f_lt ops (min_human_height d)
                      (f_sub ops (f_max ops (map c_z cluster)) (f_min ops (map c_z cluster)))
                 \<and> f_lt ops
                      (f_sub ops (f_max ops (map c_z cluster)) (f_min ops (map c_z cluster)))
                      (max_human_height d)
                 \<and> \<not> f_gt ops
                       (f_hypot ops
                          (f_sub ops (f_max ops (map c_x cluster)) (f_min ops (map c_x cluster)))
                          (f_sub ops (f_max ops (map c_y cluster)) (f_min ops (map c_y cluster))))
                       (max_human_width d))
           \<and> (ls ! i \<noteq> Human \<longrightarrow>
                 ls ! i = (if f_gt ops
                                (f_mean ops (map (\<lambda>row. f_abs ops (c_velocity row)) cluster))
                                (movement_threshold d)
                           then Moving else Static))"
    by (simp add: r(3) classify_def is_human_cluster_iff)
  with r(1,2) show ?thesis by blast
qed

theorem classifier_labels_witness:
  "example_heap 7 = example_batch \<and> rows example_batch \<noteq> []
   \<and> example_dbscan (eps example_detector) (min_samples example_detector)
        (map (\<lambda>row. (c_x row, c_y row, c_z row)) (rows example_batch)) = [0, 0, 1]
   \<and> length [0, 0, 1 :: int] = length (rows example_batch)
   \<and> 0 < length (rows example_batch) \<and> [0, 0, 1 :: int] ! 0 \<noteq> - 1
   \<and> (\<exists>df' info ls.
          process example_ops example_dbscan example_detector example_heap 7
            = Inr (example_heap(7 := df'), 7, info)
          \<and> label_col df' = Some ls \<and> ls ! 0 = Human)"
proof -
  define cluster where
    "cluster = map fst (filter (\<lambda>(row, c). c = [0, 0, 1 :: int] ! 0)
                               (zip (rows example_batch) [0, 0, 1]))"
  have h1: "example_heap 7 = example_batch" by (simp add: example_heap_def)
  have h2: "rows example_batch \<noteq> []" by (simp add: example_batch_def)
  have h3: "example_dbscan (eps example_detector) (min_samples example_detector)
        (map (\<lambda>row. (c_x row, c_y row, c_z row)) (rows example_batch)) = [0, 0, 1]"
    by (simp add: example_dbscan_def)
  have h4: "length [0, 0, 1 :: int] = length (rows example_batch)"
    by (simp add: example_batch_def)
  have h5: "0 < length (rows example_batch)" by (simp add: example_batch_def)
  have h6: "[0, 0, 1 :: int] ! 0 \<noteq> - 1" by simp
  have cl: "cluster = [\<lparr>c_x = 0, c_y = 0, c_z = 0, c_velocity = 0\<rparr>,
                       \<lparr>c_x = 0, c_y = 0, c_z = 1, c_velocity = 0\<rparr>]"
    by (simp add: cluster_def example_batch_def)
  have conds: "min_points_human example_detector \<le> int (length cluster)
     \<and> f_lt example_ops (min_human_height example_detector)
          (f_sub example_ops (f_max example_ops (map c_z cluster))
                             (f_min example_ops (map c_z cluster)))
     \<and> f_lt example_ops
          (f_sub example_ops (f_max example_ops (map c_z cluster))
                             (f_min example_ops (map c_z cluster)))
          (max_human_height example_detector)
     \<and> \<not> f_gt example_ops
           (f_hypot example_ops
              (f_sub example_ops (f_max example_ops (map c_x cluster))
                                 (f_min example_ops (map c_x cluster)))
              (f_sub example_ops (f_max example_ops (map c_y cluster))
                                 (f_min example_ops (map c_y cluster))))
           (max_human_width example_detector)"
    by (simp add: cl example_detector_def example_ops_def)
  from classifier_labels [where h = example_heap and r = 7 and db = example_dbscan
      and d = example_detector and ops = example_ops, OF h1 h2 h3 h4 h5 h6 cluster_def]
  obtain df' info ls where
    "process example_ops example_dbscan example_detector example_heap 7
       = Inr (example_heap(7 := df'), 7, info)"
    and "label_col df' = Some ls"
    and "ls ! 0 = Human \<longleftrightarrow>
           min_points_human example_detector \<le> int (length cluster)
           \<and> f_lt example_ops (min_human_height example_detector)
                (f_sub example_ops (f_max example_ops (map c_z cluster))
                                   (f_min example_ops (map c_z cluster)))
           \<and> f_lt example_ops
                (f_sub example_ops (f_max example_ops (map c_z cluster))
                                   (f_min example_ops (map c_z cluster)))
                (max_human_height example_detector)
           \<and> \<not> f_gt example_ops
                 (f_hypot example_ops
                    (f_sub example_ops (f_max example_ops (map c_x cluster))
                                       (f_min example_ops (map c_x cluster)))
                    (f_sub example_ops (f_max example_ops (map c_y cluster))
                                       (f_min example_ops (map c_y cluster))))
                 (max_human_width example_detector)"
    by blast
  with conds have "\<exists>df' info ls.
          process example_ops example_dbscan example_detector example_heap 7
            = Inr (example_heap(7 := df'), 7, info)
          \<and> label_col df' = Some ls \<and> ls ! 0 = Human"
    by blast
  with h1 h2 h3 h4 h5 h6 show ?thesis by blast
qed

text \<open>
  Claim C9. \<^verbatim>\<open>process\<close> on a non-empty batch, with a clustering that labels every row,
  returns the reference it was given, and the heap after the call differs from the heap
  before it in the object behind that reference alone: that object has the rows it had
  and now has a \<^verbatim>\<open>cluster_id\<close> column, holding the clustering's labels, and a
  \<^verbatim>\<open>label\<close> column with one label for each row. The caller, who holds the same reference,
  sees its batch changed.
\<close>

theorem process_in_place:
  assumes "h r = df" and "rows df \<noteq> []"
    and "db (eps d) (min_samples d) (map (\<lambda>row. (c_x row, c_y row, c_z row)) (rows df)) = labels"
    and "length labels = length (rows df)"
  shows "\<exists>df' info ls.
           process ops db d h r = Inr (h(r := df'), r, info)
           \<and> rows df' = rows df \<and> cluster_id_col df' = Some labels
           \<and> label_col df' = Some ls \<and> length ls = length (rows df)"
proof -
  have "0 < length (rows df)" using assms(2) by simp
  from process_result [where h = h and r = r and db = db and d = d and ops = ops,
      OF assms(1-4) this]
  show ?thesis by blast
qed

theorem process_in_place_witness:
  "example_heap 7 = example_batch \<and> rows example_batch \<noteq> []
   \<and> cluster_id_col example_batch = None \<and> label_col example_batch = None
   \<and> example_dbscan (eps example_detector) (min_samples example_detector)
        (map (\<lambda>row. (c_x row, c_y row, c_z row)) (rows example_batch)) = [0, 0, 1]
   \<and> length [0, 0, 1 :: int] = length (rows example_batch)
   \<and> (\<exists>df' info ls.
          process example_ops example_dbscan example_detector example_heap 7
            = Inr (example_heap(7 := df'), 7, info)
          \<and> rows df' = rows example_batch \<and> cluster_id_col df' = Some [0, 0, 1]
          \<and> label_col df' = Some ls \<and> length ls = length (rows example_batch))"
proof -
  have h1: "example_heap 7 = example_batch" by (simp add: example_heap_def)
  have h2: "rows example_batch \<noteq> []" by (simp add: example_batch_def)
  have h3: "example_dbscan (eps example_detector) (min_samples example_detector)
        (map (\<lambda>row. (c_x row, c_y row, c_z row)) (rows example_batch)) = [0, 0, 1]"
    by (simp add: example_dbscan_def)
  have h4: "length [0, 0, 1 :: int] = length (rows example_batch)"
    by (simp add: example_batch_def)
  have n: "cluster_id_col example_batch = None \<and> label_col example_batch = None"
    by (simp add: example_batch_def)
  from process_in_place [where h = example_heap and r = 7 and db = example_dbscan
      and d = example_detector and ops = example_ops, OF h1 h2 h3 h4]
  have "\<exists>df' info ls.
          process example_ops example_dbscan example_detector example_heap 7
            = Inr (example_heap(7 := df'), 7, info)
          \<and> rows df' = rows example_batch \<and> cluster_id_col df' = Some [0, 0, 1]
          \<and> label_col df' = Some ls \<and> length ls = length (rows example_batch)" .
  with h1 h2 h3 h4 n show ?thesis by blast
qed

text \<open>The whole result of \<^verbatim>\<open>process\<close> on the example batch.\<close>

lemma process_example:
  "process example_ops example_dbscan example_detector example_heap 7
   = Inr (example_heap(7 := example_batch\<lparr>cluster_id_col := Some [0, 0, 1],
                                           label_col := Some [Human, Human, Moving]\<rparr>),
          7, [\<lparr>h_id = 0, h_centroid = (0, 0, 1 / 2), h_points = 2\<rparr>])"
  by (simp add: process_def example_dbscan_def example_detector_def example_heap_def
        example_batch_def example_ops_def unique_def label_cluster_def select_cluster_def
        is_human_cluster_def loc_set_label_def Let_def)

end
